theory Spec2Isabelle
  imports Complex_Main
begin

section \<open>The freshness ledger of \<open>app.py\<close>\<close>

subsection \<open>Worksheet cells and rows\<close>

text \<open>
  A worksheet cell holds a dynamically typed value. The program itself writes integers
  and strings; an empty cell reads as \<open>None\<close>.
\<close>

datatype cell = CNone | CInt int | CStr string

text \<open>
  A row of the worksheet, by column: \<open>row[0]\<close> .. \<open>row[4]\<close> in the source, under the
  header \<open>S No, Product, Fresh Count, Last Detected Time, Expected Life Span\<close>.
\<close>

record row =
  s_no :: cell
  product_cell :: cell
  fresh_count :: cell
  last_detected_time :: cell
  life_span :: cell

text \<open>
  The worksheet is the list of its rows, row 1 first; the next row appended comes after the
  last one. In a sheet made by the program row 1 is the header. \<open>[]\<close> is a worksheet whose
  next appended row is row 1: it has no cell, or the one cell that a refused append has
  left in row 1 (see \<open>sheet_append\<close>).
\<close>

type_synonym sheet = "row list"

definition header_row :: row where
  "header_row = \<lparr>s_no = CStr ''S No'', product_cell = CStr ''Product'',
     fresh_count = CStr ''Fresh Count'', last_detected_time = CStr ''Last Detected Time'',
     life_span = CStr ''Expected Life Span''\<rparr>"

text \<open>The sheet of a new workbook, after \<open>sheet.append\<close> of the header (lines 38-40).\<close>

definition new_sheet :: sheet where
  "new_sheet = [header_row]"

text \<open>\<open>sheet.max_row\<close>: the index of the last row, and 1 for a worksheet without cells.\<close>

definition max_row :: "sheet \<Rightarrow> int" where
  "max_row sh = (if sh = [] then 1 else int (length sh))"

datatype py_error = TypeError | IndexError | ValueError | IllegalCharacterError

text \<open>
  What a cell does with a string it is given (\<open>check_string\<close> of the worksheet library): the
  string is cut to its first 32767 characters, and when a control character other than
  tab, line feed and carriage return is left in it the cell refuses it with
  \<open>IllegalCharacterError\<close>.
\<close>

definition max_string_length :: nat where
  "max_string_length = 32767"

definition illegal_character :: "char \<Rightarrow> bool" where
  "illegal_character c =
     (let n = (of_char c :: nat) in n \<le> 8 \<or> n = 11 \<or> n = 12 \<or> (14 \<le> n \<and> n \<le> 31))"

definition check_string :: "string \<Rightarrow> py_error + string" where
  "check_string s =
     (let v = take max_string_length s
      in if list_ex illegal_character v then Inl IllegalCharacterError else Inr v)"

text \<open>The strings that a cell stores as they are.\<close>

definition storable :: "string \<Rightarrow> bool" where
  "storable s = (length s \<le> max_string_length \<and> \<not> list_ex illegal_character s)"

text \<open>
  \<open>sheet.append([n, product, count, time, lifespan])\<close>. The cells of
  the new row are made one after the other, so the S No cell is in the worksheet when the
  product is checked: a refused product leaves a row with that one cell, the others
  empty. On a worksheet whose next row is row 1 that cell is in row 1, which no scan reads
  and which the next append writes again: the worksheet is still \<open>[]\<close>. The other strings
  of the row, the timestamp of \<open>strftime\<close> and \<open>N/A\<close> or \<open>Unknown\<close>, are short and without
  control characters, and are stored as they are.
\<close>

definition half_row :: "int \<Rightarrow> row" where
  "half_row n = \<lparr>s_no = CInt n, product_cell = CNone, fresh_count = CNone,
                  last_detected_time = CNone, life_span = CNone\<rparr>"

definition sheet_append :: "int \<Rightarrow> string \<Rightarrow> int \<Rightarrow> string \<Rightarrow> cell \<Rightarrow> sheet \<Rightarrow> (py_error \<times> sheet) + sheet" where
  "sheet_append n product count time lifespan sh =
     (case check_string product of
        Inl e \<Rightarrow> Inl (e, if sh = [] then [] else sh @ [half_row n])
      | Inr stored \<Rightarrow>
          Inr (sh @ [\<lparr>s_no = CInt n, product_cell = CStr stored,
                       fresh_count = CInt count,
                       last_detected_time = CStr time,
                       life_span = lifespan\<rparr>]))"

subsection \<open>The static tables\<close>

definition label_encoder :: "string list" where
  "label_encoder = [''apple_fresh'', ''apple_stale'', ''onion_fresh'', ''onion_stale'',
                    ''carrot_fresh'', ''carrot_stale'', ''tomato_fresh'', ''tomato_stale'']"

definition expected_life_span :: "string \<rightharpoonup> int" where
  "expected_life_span = map_of [(''apple'', 7), (''onion'', 10), (''carrot'', 5), (''tomato'', 3)]"

subsection \<open>The ledger upsert\<close>

text \<open>\<open>row[2].value += 1\<close>: adding 1 to a cell that holds no integer raises \<open>TypeError\<close>.\<close>

fun increment :: "cell \<Rightarrow> py_error + cell" where
  "increment (CInt n) = Inr (CInt (n + 1))"
| "increment CNone = Inl TypeError"
| "increment (CStr s) = Inl TypeError"

text \<open>
  Line 46: \<open>"N/A" if not is_fresh else expected_life_span.get(product, "Unknown")\<close>.
\<close>

definition lifespan_value :: "string \<Rightarrow> bool \<Rightarrow> cell" where
  "lifespan_value product is_fresh =
     (if \<not> is_fresh then CStr ''N/A''
      else (case expected_life_span product of
              Some days \<Rightarrow> CInt days
            | None \<Rightarrow> CStr ''Unknown''))"

text \<open>
  The loop of lines 50-57 over the rows from row 2 on. It returns \<open>product_found\<close> and the
  rows as the loop leaves them; the \<open>break\<close> leaves the rows after the first match as
  they are. A \<open>TypeError\<close> is raised before anything has been written.
\<close>

fun scan_rows :: "string \<Rightarrow> bool \<Rightarrow> string \<Rightarrow> cell \<Rightarrow> row list \<Rightarrow> py_error + (bool \<times> row list)" where
  "scan_rows product is_fresh now lifespan [] = Inr (False, [])"
| "scan_rows product is_fresh now lifespan (r # rows) =
     (if product_cell r = CStr product then
        (case (if is_fresh then increment (fresh_count r) else Inr (fresh_count r)) of
           Inl e \<Rightarrow> Inl e
         | Inr c \<Rightarrow> Inr (True, r\<lparr>fresh_count := c, last_detected_time := CStr now,
                                 life_span := lifespan\<rparr> # rows))
      else
        (case scan_rows product is_fresh now lifespan rows of
           Inl e \<Rightarrow> Inl e
         | Inr (product_found, rows') \<Rightarrow> Inr (product_found, r # rows')))"

text \<open>
  \<open>update_fresh_count(product, is_fresh)\<close> on the sheet; \<open>now\<close> is what
  \<open>datetime.now().strftime("%Y-%m-%d %H:%M:%S")\<close> returns in this call (it is read once,
  at line 55 or at line 62). \<open>Inl\<close> is the exception raised, with the sheet the call has
  left: the sheet as it was for the \<open>TypeError\<close> of line 54, what \<open>sheet.append\<close> has left for
  the \<open>IllegalCharacterError\<close> of line 63.
\<close>

definition update_fresh_count :: "string \<Rightarrow> bool \<Rightarrow> string \<Rightarrow> sheet \<Rightarrow> (py_error \<times> sheet) + sheet" where
  "update_fresh_count product is_fresh now sh =
     (let lifespan = lifespan_value product is_fresh
      in case scan_rows product is_fresh now lifespan (drop 1 sh) of
           Inl e \<Rightarrow> Inl (e, sh)
         | Inr (product_found, rows') \<Rightarrow>
             (let sh' = take 1 sh @ rows' in
              if \<not> product_found then
                (let fresh_count = (if is_fresh then 1 else 0);
                     last_detected_time = now
                 in sheet_append (max_row sh') product fresh_count last_detected_time lifespan sh')
              else Inr sh'))"

text \<open>The sheet as it is after the call, whether the call raised or returned.\<close>

definition sheet_after :: "string \<Rightarrow> bool \<Rightarrow> string \<Rightarrow> sheet \<Rightarrow> sheet" where
  "sheet_after product is_fresh now sh =
     (case update_fresh_count product is_fresh now sh of Inl (e, sh') \<Rightarrow> sh' | Inr sh' \<Rightarrow> sh')"

text \<open>
  A sequence of calls, each with its product, its \<open>is_fresh\<close> and its clock reading, every
  call on the sheet the one before has left; it stops at a call that raises, with the
  sheet that call has left.
\<close>

fun upserts :: "(string \<times> bool \<times> string) list \<Rightarrow> sheet \<Rightarrow> (py_error \<times> sheet) + sheet" where
  "upserts [] sh = Inr sh"
| "upserts ((product, is_fresh, now) # calls) sh =
     (case update_fresh_count product is_fresh now sh of
        Inl (e, sh') \<Rightarrow> Inl (e, sh')
      | Inr sh' \<Rightarrow> upserts calls sh')"

subsection \<open>Reading the ledger\<close>

text \<open>
  The ledger rows are the rows from row 2 on. The row of a product is the first one whose
  Product cell holds it, as the scan of \<open>update_fresh_count\<close> finds it.
\<close>

definition ledger_row :: "string \<Rightarrow> sheet \<Rightarrow> row option" where
  "ledger_row product sh = find (\<lambda>r. product_cell r = CStr product) (drop 1 sh)"

text \<open>The product names of the ledger rows, in row order.\<close>

fun cell_strings :: "cell list \<Rightarrow> string list" where
  "cell_strings [] = []"
| "cell_strings (CStr s # cs) = s # cell_strings cs"
| "cell_strings (c # cs) = cell_strings cs"

definition product_values :: "sheet \<Rightarrow> string list" where
  "product_values sh = cell_strings (map product_cell (drop 1 sh))"

text \<open>At most one ledger row for each product value.\<close>

definition one_row_per_product :: "sheet \<Rightarrow> bool" where
  "one_row_per_product sh = distinct (product_values sh)"

fun is_int :: "cell \<Rightarrow> bool" where
  "is_int (CInt n) = True"
| "is_int c = False"

text \<open>Every ledger row has an integer in its Fresh Count cell.\<close>

definition counts_are_ints :: "sheet \<Rightarrow> bool" where
  "counts_are_ints sh = list_all (\<lambda>r. is_int (fresh_count r)) (drop 1 sh)"

text \<open>The sheet has its row 1, and the S No cells of the ledger rows count 1, 2, ... in row order.\<close>

definition numbered :: "sheet \<Rightarrow> bool" where
  "numbered sh = (sh \<noteq> [] \<and> map s_no (drop 1 sh) = map CInt [1..int (length sh) - 1])"

text \<open>The distinct products of a sequence of calls, in the order in which they first appear.\<close>

fun first_seen :: "string list \<Rightarrow> string list \<Rightarrow> string list" where
  "first_seen seen [] = seen"
| "first_seen seen (p # ps) = first_seen (if p \<in> set seen then seen else seen @ [p]) ps"

subsection \<open>The detection interpreter\<close>

text \<open>
  One detected object, as the interpreter reads it: \<open>confidences[i].item()\<close>, a finite
  float taken as the rational it denotes, and \<open>int(labels[i])\<close>, the class index. The
  box coordinates are never read.
\<close>

record detection =
  conf :: rat
  cls :: int

definition CONFIDENCE_THRESHOLD :: rat where
  "CONFIDENCE_THRESHOLD = 1 / 2"

text \<open>The dictionary appended to \<open>predictions\<close> (lines 97-101).\<close>

record prediction =
  Product :: string
  Freshness :: string
  Confidence :: string

text \<open>\<open>xs[i]\<close> on a Python list: a negative index counts from the end.\<close>

definition list_getitem :: "'a list \<Rightarrow> int \<Rightarrow> py_error + 'a" where
  "list_getitem xs i =
     (if 0 \<le> i \<and> i < int (length xs) then Inr (xs ! nat i)
      else if - int (length xs) \<le> i \<and> i < 0 then Inr (xs ! nat (int (length xs) + i))
      else Inl IndexError)"

text \<open>\<open>s.split(sep)\<close> for a separator of one character.\<close>

fun str_split :: "char \<Rightarrow> string \<Rightarrow> string list" where
  "str_split sep [] = [[]]"
| "str_split sep (c # cs) =
     (if c = sep then [] # str_split sep cs
      else (case str_split sep cs of
              [] \<Rightarrow> [[c]]
            | part # parts \<Rightarrow> (c # part) # parts))"

text \<open>\<open>s.capitalize()\<close> on ASCII text: the first letter upper case, the others lower case.\<close>

definition upper_char :: "char \<Rightarrow> char" where
  "upper_char c = (let n = (of_char c :: nat) in if 97 \<le> n \<and> n \<le> 122 then char_of (n - 32) else c)"

definition lower_char :: "char \<Rightarrow> char" where
  "lower_char c = (let n = (of_char c :: nat) in if 65 \<le> n \<and> n \<le> 90 then char_of (n + 32) else c)"

fun capitalize :: "string \<Rightarrow> string" where
  "capitalize [] = []"
| "capitalize (c # cs) = upper_char c # map lower_char cs"

text \<open>
  \<open>f"{confidence:.2f}"\<close>: the value rounded to two decimals, a tie going to the even
  neighbour, printed with a sign when it is negative.
\<close>

definition digit_char :: "nat \<Rightarrow> char" where
  "digit_char d = char_of (48 + d)"

fun str_nat :: "nat \<Rightarrow> string" where
  "str_nat n = (if n < 10 then [digit_char n] else str_nat (n div 10) @ [digit_char (n mod 10)])"

declare str_nat.simps [simp del]

definition round_half_even :: "rat \<Rightarrow> int" where
  "round_half_even x =
     (let f = \<lfloor>x\<rfloor>; d = x - of_int f
      in if d < 1 / 2 then f else if 1 / 2 < d then f + 1 else if even f then f else f + 1)"

definition format_2f :: "rat \<Rightarrow> string" where
  "format_2f x =
     (let q = nat (round_half_even (\<bar>x\<bar> * 100))
      in (if x < 0 then [CHR ''-''] else []) @ str_nat (q div 100) @ [CHR ''.''] @
         [digit_char (q mod 100 div 10), digit_char (q mod 10)])"

text \<open>
  What the interpreter can touch: the module-level worksheet, the messages handed to
  \<open>st.error\<close>, and the clock, of which \<open>now_calls\<close> counts the readings taken so far.
\<close>

record world =
  sheet :: sheet
  st_errors :: "string list"
  now_calls :: nat

text \<open>
  The call at line 94, in the world: \<open>clock k\<close> is the formatted reading of the
  \<open>k\<close>-th call of \<open>datetime.now()\<close>. The \<open>TypeError\<close> of line 54 is raised before the clock
  is read at line 55; every other end of the call, the \<open>IllegalCharacterError\<close> of line 63
  too, comes after the reading of line 55 or of line 62.
\<close>

definition call_update_fresh_count :: "(nat \<Rightarrow> string) \<Rightarrow> string \<Rightarrow> bool \<Rightarrow> world
    \<Rightarrow> (py_error \<times> world) + world" where
  "call_update_fresh_count clock product is_fresh w =
     (case update_fresh_count product is_fresh (clock (now_calls w)) (sheet w) of
        Inl (e, sh') \<Rightarrow>
          Inl (e, w\<lparr>sheet := sh',
                     now_calls := (if e = TypeError then now_calls w else Suc (now_calls w))\<rparr>)
      | Inr sh' \<Rightarrow> Inr (w\<lparr>sheet := sh', now_calls := Suc (now_calls w)\<rparr>))"

text \<open>
  Lines 88-90: the label of a class index, split at the underscore. Unpacking a split that
  has not exactly two parts raises \<open>ValueError\<close>.
\<close>

definition interpret_label :: "int \<Rightarrow> py_error + (string \<times> string)" where
  "interpret_label label_idx =
     (case list_getitem label_encoder label_idx of
        Inl e \<Rightarrow> Inl e
      | Inr predicted_label \<Rightarrow>
          (case str_split CHR ''_'' predicted_label of
             [product, freshness] \<Rightarrow> Inr (product, freshness)
           | _ \<Rightarrow> Inl ValueError))"

text \<open>
  The inner loop (lines 83-101) over the detections of one result, with the
  \<open>predictions\<close> list so far. An exception leaves the world as the loop and the call that
  raised have made it.
\<close>

fun boxes_loop :: "(nat \<Rightarrow> string) \<Rightarrow> detection list \<Rightarrow> prediction list \<Rightarrow> world
    \<Rightarrow> (py_error + prediction list) \<times> world" where
  "boxes_loop clock [] predictions w = (Inr predictions, w)"
| "boxes_loop clock (box # boxes) predictions w =
     (let confidence = conf box in
      if confidence < CONFIDENCE_THRESHOLD then boxes_loop clock boxes predictions w
      else
        (case interpret_label (cls box) of
           Inl e \<Rightarrow> (Inl e, w)
         | Inr (product, freshness) \<Rightarrow>
             (let is_fresh = (freshness = ''fresh'') in
              case call_update_fresh_count clock product is_fresh w of
                Inl (e, w') \<Rightarrow> (Inl e, w')
              | Inr w' \<Rightarrow>
                  boxes_loop clock boxes
                    (predictions @ [\<lparr>Product = capitalize product,
                                      Freshness = capitalize freshness,
                                      Confidence = format_2f confidence\<rparr>]) w')))"

text \<open>The outer loop (line 78) over the results of the model.\<close>

fun results_loop :: "(nat \<Rightarrow> string) \<Rightarrow> detection list list \<Rightarrow> prediction list \<Rightarrow> world
    \<Rightarrow> (py_error + prediction list) \<times> world" where
  "results_loop clock [] predictions w = (Inr predictions, w)"
| "results_loop clock (result # results) predictions w =
     (case boxes_loop clock result predictions w of
        (Inl e, w') \<Rightarrow> (Inl e, w')
      | (Inr predictions', w') \<Rightarrow> results_loop clock results predictions' w')"

text \<open>
  \<open>detect_and_classify(image_path)\<close>. \<open>imread\<close> is \<open>cv2.imread\<close>, which gives \<open>None\<close>
  for a file it cannot decode, and \<open>model\<close> is the loaded detector, one list of
  detections for each result. The value returned is \<open>None\<close> or the predictions list.
\<close>

definition detect_and_classify :: "(string \<Rightarrow> 'img option) \<Rightarrow> ('img \<Rightarrow> detection list list)
    \<Rightarrow> (nat \<Rightarrow> string) \<Rightarrow> string \<Rightarrow> world \<Rightarrow> (py_error + prediction list option) \<times> world" where
  "detect_and_classify imread model clock image_path w =
     (case imread image_path of
        None \<Rightarrow> (Inr None, w\<lparr>st_errors := st_errors w @ [''Error: Image not found.'']\<rparr>)
      | Some img \<Rightarrow>
          (case results_loop clock (model img) [] w of
             (Inl e, w') \<Rightarrow> (Inl e, w')
           | (Inr predictions, w') \<Rightarrow> (Inr (Some predictions), w')))"

subsection \<open>The records and the calls of a run\<close>

text \<open>
  The (product, freshness) pairs that the eight labels of \<open>label_encoder\<close> spell, in its
  order.
\<close>

definition label_pairs :: "(string \<times> string) list" where
  "label_pairs = [(''apple'', ''fresh''), (''apple'', ''stale''), (''onion'', ''fresh''),
                  (''onion'', ''stale''), (''carrot'', ''fresh''), (''carrot'', ''stale''),
                  (''tomato'', ''fresh''), (''tomato'', ''stale'')]"

text \<open>The detections that reach the threshold, in the order of the model output.\<close>

definition kept :: "detection list list \<Rightarrow> detection list" where
  "kept results = filter (\<lambda>b. CONFIDENCE_THRESHOLD \<le> conf b) (concat results)"

text \<open>
  The labels of detections with their confidences, in order, up to the first class index
  that has no label, and the exception that one raises.
\<close>

fun labels_of :: "detection list \<Rightarrow> (string \<times> string \<times> rat) list \<times> py_error option" where
  "labels_of [] = ([], None)"
| "labels_of (b # bs) =
     (case interpret_label (cls b) of
        Inl e \<Rightarrow> ([], Some e)
      | Inr (product, freshness) \<Rightarrow>
          (case labels_of bs of (ls, bad) \<Rightarrow> ((product, freshness, conf b) # ls, bad)))"

text \<open>The record of a labelled detection, and its call of the ledger upsert.\<close>

fun record_of :: "string \<times> string \<times> rat \<Rightarrow> prediction" where
  "record_of (product, freshness, confidence) =
     \<lparr>Product = capitalize product, Freshness = capitalize freshness,
        Confidence = format_2f confidence\<rparr>"

fun call_of :: "string \<times> string \<times> rat \<Rightarrow> string \<times> bool" where
  "call_of (product, freshness, confidence) = (product, freshness = ''fresh'')"

text \<open>
  Calls of the ledger upsert one after the other, each in the world the one before has
  left. A call that raises ends them, and the world it has left stays.
\<close>

fun upsert_each :: "(nat \<Rightarrow> string) \<Rightarrow> (string \<times> bool) list \<Rightarrow> world \<Rightarrow> py_error option \<times> world" where
  "upsert_each clock [] w = (None, w)"
| "upsert_each clock ((product, is_fresh) # calls) w =
     (case call_update_fresh_count clock product is_fresh w of
        Inl (e, w') \<Rightarrow> (Some e, w')
      | Inr w' \<Rightarrow> upsert_each clock calls w')"

subsection \<open>A ledger to try the operations on\<close>

text \<open>A sheet as the program leaves it after a stale onion and three fresh apples.\<close>

definition example_sheet :: sheet where
  "example_sheet =
     [header_row,
      \<lparr>s_no = CInt 1, product_cell = CStr ''onion'', fresh_count = CInt 0,
         last_detected_time = CStr ''2024-05-01 09:30:00'', life_span = CStr ''N/A''\<rparr>,
      \<lparr>s_no = CInt 2, product_cell = CStr ''apple'', fresh_count = CInt 3,
         last_detected_time = CStr ''2024-05-01 09:31:00'', life_span = CInt 7\<rparr>]"

text \<open>An upload that decodes, one that does not, and a clock.\<close>

definition decodable :: "string \<Rightarrow> unit option" where
  "decodable image_path = Some ()"

definition undecodable :: "string \<Rightarrow> unit option" where
  "undecodable image_path = None"

definition example_clock :: "nat \<Rightarrow> string" where
  "example_clock k = ''2024-05-02 08:00:0'' @ str_nat k"

text \<open>A model output of one box, class 0 with confidence 0.9, and one of confidence 0.3.\<close>

definition one_apple :: "unit \<Rightarrow> detection list list" where
  "one_apple img = [[\<lparr>conf = 9 / 10, cls = 0\<rparr>]]"

definition one_faint :: "unit \<Rightarrow> detection list list" where
  "one_faint img = [[\<lparr>conf = 3 / 10, cls = 0\<rparr>]]"

definition fresh_world :: world where
  "fresh_world = \<lparr>sheet = new_sheet, st_errors = [], now_calls = 0\<rparr>"

definition example_world :: world where
  "example_world = \<lparr>sheet = example_sheet, st_errors = [], now_calls = 0\<rparr>"

text \<open>
  A model output of an apple and then a class index that has no label, and one of a stale
  onion alone.
\<close>

definition apple_then_unlabelled :: "unit \<Rightarrow> detection list list" where
  "apple_then_unlabelled img = [[\<lparr>conf = 9 / 10, cls = 0\<rparr>], [\<lparr>conf = 3 / 4, cls = 8\<rparr>]]"

definition one_stale_onion :: "unit \<Rightarrow> detection list list" where
  "one_stale_onion img = [[\<lparr>conf = 3 / 4, cls = 3\<rparr>]]"

text \<open>One of an apple, a faint carrot and, in a second result, a stale onion.\<close>

definition apple_faint_onion :: "unit \<Rightarrow> detection list list" where
  "apple_faint_onion img =
     [[\<lparr>conf = 9 / 10, cls = 0\<rparr>, \<lparr>conf = 3 / 10, cls = 5\<rparr>], [\<lparr>conf = 3 / 4, cls = 3\<rparr>]]"


definition long_product :: string where
  "long_product = replicate max_string_length CHR ''a''"

definition too_long_product :: string where
  "too_long_product = long_product @ ''a''"

text \<open>A sheet whose one ledger row is that of \<open>long_product\<close>.\<close>

definition long_sheet :: sheet where
  "long_sheet =
     [header_row,
      \<lparr>s_no = CInt 1, product_cell = CStr long_product, fresh_count = CInt 1,
         last_detected_time = CStr ''2024-05-01 09:30:00'', life_span = CStr ''Unknown''\<rparr>]"

section \<open>Facts about the scan and the append\<close>

lemma check_string_storable: "storable s \<Longrightarrow> check_string s = Inr s"
  by (simp add: storable_def check_string_def)

lemma check_string_Inr: "check_string s = Inr v \<Longrightarrow> v = take max_string_length s"
  by (simp add: check_string_def Let_def split: if_splits)

lemma check_string_Inl: "check_string s = Inl e \<Longrightarrow> e = IllegalCharacterError"
  by (simp add: check_string_def Let_def split: if_splits)

lemma check_string_short:
  "length s \<le> max_string_length \<Longrightarrow> check_string s = Inr v \<Longrightarrow> v = s"
  by (simp add: check_string_def Let_def split: if_splits)

lemma scan_rows_absent:
  "\<forall>r\<in>set rows. product_cell r \<noteq> CStr product \<Longrightarrow>
   scan_rows product is_fresh now lifespan rows = Inr (False, rows)"
  by (induction rows) simp_all

lemma scan_rows_first_match:
  assumes "i < length rows"
    and "product_cell (rows ! i) = CStr product"
    and "\<forall>j<i. product_cell (rows ! j) \<noteq> CStr product"
  shows "scan_rows product is_fresh now lifespan rows =
     (case (if is_fresh then increment (fresh_count (rows ! i)) else Inr (fresh_count (rows ! i))) of
        Inl e \<Rightarrow> Inl e
      | Inr c \<Rightarrow> Inr (True, rows[i := (rows ! i)\<lparr>fresh_count := c, last_detected_time := CStr now,
                                 life_span := lifespan\<rparr>]))"
  using assms
proof (induction rows arbitrary: i)
  case Nil
  then show ?case by simp
next
  case (Cons r rows)
  show ?case
  proof (cases i)
    case 0
    with Cons.prems show ?thesis by (simp split: sum.splits)
  next
    case (Suc k)
    from Cons.prems Suc have hd: "product_cell r \<noteq> CStr product" by auto
    from Cons.prems Suc have k: "k < length rows" "product_cell (rows ! k) = CStr product"
      "\<forall>j<k. product_cell (rows ! j) \<noteq> CStr product" by auto
    from Cons.IH[OF k] hd Suc show ?thesis by (simp split: sum.splits)
  qed
qed

lemma update_absent:
  assumes "\<forall>r\<in>set (drop 1 sh). product_cell r \<noteq> CStr product"
  shows "update_fresh_count product is_fresh now sh =
     sheet_append (max_row sh) product (if is_fresh then 1 else 0) now
       (lifespan_value product is_fresh) sh"
  using scan_rows_absent[OF assms]
  by (simp add: update_fresh_count_def Let_def)

lemma update_absent_storable:
  assumes "\<forall>r\<in>set (drop 1 sh). product_cell r \<noteq> CStr product"
    and "storable product"
  shows "update_fresh_count product is_fresh now sh =
     Inr (sh @ [\<lparr>s_no = CInt (max_row sh), product_cell = CStr product,
                  fresh_count = CInt (if is_fresh then 1 else 0),
                  last_detected_time = CStr now,
                  life_span = lifespan_value product is_fresh\<rparr>])"
  using update_absent[OF assms(1)] check_string_storable[OF assms(2)]
  by (simp add: sheet_append_def)

lemma update_first_match:
  assumes "i < length rows"
    and "product_cell (rows ! i) = CStr product"
    and "\<forall>j<i. product_cell (rows ! j) \<noteq> CStr product"
  shows "update_fresh_count product is_fresh now (h # rows) =
     (case (if is_fresh then increment (fresh_count (rows ! i)) else Inr (fresh_count (rows ! i))) of
        Inl e \<Rightarrow> Inl (e, h # rows)
      | Inr c \<Rightarrow> Inr (h # rows[i := (rows ! i)\<lparr>fresh_count := c, last_detected_time := CStr now,
                                 life_span := lifespan_value product is_fresh\<rparr>]))"
  using scan_rows_first_match[OF assms]
  by (simp add: update_fresh_count_def Let_def split: sum.splits)

lemma scan_rows_shape:
  "scan_rows product is_fresh now lifespan rows = Inr (found, rows') \<Longrightarrow>
   map product_cell rows' = map product_cell rows \<and> map s_no rows' = map s_no rows
   \<and> (found \<longleftrightarrow> CStr product \<in> set (map product_cell rows))"
proof (induction rows arbitrary: found rows')
  case Nil
  then show ?case by simp
next
  case (Cons r rows)
  show ?case
  proof (cases "product_cell r = CStr product")
    case True
    with Cons.prems show ?thesis by (auto split: sum.splits if_splits)
  next
    case False
    with Cons.prems obtain rs where rs: "scan_rows product is_fresh now lifespan rows = Inr (found, rs)"
      and r': "rows' = r # rs"
      by (auto split: sum.splits)
    from Cons.IH[OF rs] r' False show ?thesis by auto
  qed
qed

lemma scan_rows_succeeds:
  "list_all (\<lambda>r. is_int (fresh_count r)) rows \<Longrightarrow>
   \<exists>rows'. scan_rows product is_fresh now lifespan rows
       = Inr (CStr product \<in> set (map product_cell rows), rows')
     \<and> list_all (\<lambda>r. is_int (fresh_count r)) rows'"
proof (induction rows)
  case Nil
  then show ?case by simp
next
  case (Cons r rows)
  from Cons.prems obtain n where n: "fresh_count r = CInt n"
    by (cases "fresh_count r") auto
  from Cons obtain rs where rs: "scan_rows product is_fresh now lifespan rows
      = Inr (CStr product \<in> set (map product_cell rows), rs)"
    and ints: "list_all (\<lambda>r. is_int (fresh_count r)) rs"
    by auto
  show ?case
  proof (cases "product_cell r = CStr product")
    case True
    with n Cons.prems show ?thesis by simp
  next
    case False
    with n rs ints show ?thesis by auto
  qed
qed

lemma scan_rows_counts:
  "scan_rows product is_fresh now lifespan rows = Inr (found, rows') \<Longrightarrow> i < length rows \<Longrightarrow>
   fresh_count (rows' ! i) = fresh_count (rows ! i)
   \<or> (is_fresh \<and> product_cell (rows ! i) = CStr product
      \<and> (\<exists>n. fresh_count (rows ! i) = CInt n \<and> fresh_count (rows' ! i) = CInt (n + 1)))"
proof (induction rows arbitrary: found rows' i)
  case Nil
  then show ?case by simp
next
  case (Cons r rows)
  show ?case
  proof (cases "product_cell r = CStr product")
    case True
    show ?thesis
    proof (cases i)
      case 0
      with Cons.prems True show ?thesis
        by (cases "fresh_count r") (auto split: if_splits)
    next
      case (Suc k)
      with Cons.prems True show ?thesis by (auto split: sum.splits if_splits)
    qed
  next
    case False
    with Cons.prems obtain rs where rs: "scan_rows product is_fresh now lifespan rows = Inr (found, rs)"
      and r': "rows' = r # rs"
      by (auto split: sum.splits)
    show ?thesis
    proof (cases i)
      case 0
      with r' show ?thesis by simp
    next
      case (Suc k)
      with Cons.prems have "k < length rows" by simp
      from Cons.IH[OF rs this] Suc r' show ?thesis by simp
    qed
  qed
qed

text \<open>What a call leaves of a sheet: the ways \<open>update_fresh_count\<close> can end.\<close>

lemma sheet_after_cases:
  obtains (raised) "sheet_after product is_fresh now sh = sh"
  | (updated) rows' where "scan_rows product is_fresh now (lifespan_value product is_fresh) (drop 1 sh) = Inr (True, rows')"
      and "sheet_after product is_fresh now sh = take 1 sh @ rows'"
  | (appended) r where "CStr product \<notin> set (map product_cell (drop 1 sh))"
      and "sheet_after product is_fresh now sh = sh @ [r]"
      and "product_cell r = CStr (take max_string_length product)"
      and "s_no r = CInt (max_row sh)"
      and "fresh_count r = CInt (if is_fresh then 1 else 0)"
  | (refused) "CStr product \<notin> set (map product_cell (drop 1 sh))"
      and "sh \<noteq> []"
      and "sheet_after product is_fresh now sh = sh @ [half_row (max_row sh)]"
proof (cases "scan_rows product is_fresh now (lifespan_value product is_fresh) (drop 1 sh)")
  case (Inl e)
  then have "sheet_after product is_fresh now sh = sh"
    by (simp add: sheet_after_def update_fresh_count_def)
  then show ?thesis by (rule raised)
next
  case (Inr res)
  then obtain found rows' where res: "scan_rows product is_fresh now (lifespan_value product is_fresh) (drop 1 sh) = Inr (found, rows')"
    by (cases res) auto
  show ?thesis
  proof (cases found)
    case True
    with res have "sheet_after product is_fresh now sh = take 1 sh @ rows'"
      by (simp add: sheet_after_def update_fresh_count_def)
    with res True show ?thesis by (auto intro: updated)
  next
    case False
    with scan_rows_shape[OF res] have absent: "CStr product \<notin> set (map product_cell (drop 1 sh))"
      by simp
    then have "\<forall>r\<in>set (drop 1 sh). product_cell r \<noteq> CStr product" by force
    note up = update_absent[OF this, of is_fresh now]
    show ?thesis
    proof (cases "check_string product")
      case (Inl e)
      show ?thesis
      proof (cases "sh = []")
        case True
        with up Inl have "sheet_after product is_fresh now sh = sh"
          by (simp add: sheet_after_def sheet_append_def)
        then show ?thesis by (rule raised)
      next
        case False
        with up Inl have "sheet_after product is_fresh now sh = sh @ [half_row (max_row sh)]"
          by (simp add: sheet_after_def sheet_append_def)
        with absent False show ?thesis by (rule refused)
      qed
    next
      case (Inr v)
      from check_string_Inr[OF Inr] have v: "v = take max_string_length product" .
      from up Inr v show ?thesis using absent
        by (intro appended[of "\<lparr>s_no = CInt (max_row sh),
                  product_cell = CStr (take max_string_length product),
                  fresh_count = CInt (if is_fresh then 1 else 0),
                  last_detected_time = CStr now,
                  life_span = lifespan_value product is_fresh\<rparr>"])
           (simp_all add: sheet_after_def sheet_append_def)
    qed
  qed
qed

lemma cell_strings_append: "cell_strings (cs @ ds) = cell_strings cs @ cell_strings ds"
  by (induction cs rule: cell_strings.induct) simp_all

lemma cell_strings_mem: "s \<in> set (cell_strings cs) \<longleftrightarrow> CStr s \<in> set cs"
  by (induction cs rule: cell_strings.induct) auto

lemma drop_1_take_1_append:
  "length rows' = length (drop 1 sh) \<Longrightarrow> drop 1 (take 1 sh @ rows') = rows'"
  by (cases sh) simp_all

lemma drop_1_snoc: "drop 1 (sh @ [r]) = (if sh = [] then [] else drop 1 sh @ [r])"
  by (cases sh) simp_all

lemma ledger_row_first_match:
  assumes "i < length rows"
    and "product_cell (rows ! i) = CStr product"
    and "\<forall>j<i. product_cell (rows ! j) \<noteq> CStr product"
  shows "ledger_row product (h # rows) = Some (rows ! i)"
  using assms by (auto simp: ledger_row_def find_Some_iff)

lemma first_seen_set: "set (first_seen seen ps) = set seen \<union> set ps"
  by (induction ps arbitrary: seen) auto

lemma first_seen_distinct: "distinct seen \<Longrightarrow> distinct (first_seen seen ps)"
  by (induction ps arbitrary: seen) auto

lemma upto_snoc: "0 \<le> n \<Longrightarrow> [1..n + 1] = [1..n] @ [n + 1]"
  by (simp add: upto_rec2)

lemma upto_snoc_nat: "map CInt [1..1 + int k] = map CInt [1..int k] @ [CInt (1 + int k)]"
  using upto_snoc[of "int k"] by (simp add: add.commute)

text \<open>
  One call for a product that a cell stores as it is, on a sheet whose ledger rows hold the
  products \<open>ps\<close>, each once, with integer counts and the S No cells 1, 2, ...: it returns,
  and leaves such a sheet.
\<close>

lemma update_step:
  assumes prods: "map product_cell rows = map CStr ps"
    and dist: "distinct ps"
    and ints: "list_all (\<lambda>r. is_int (fresh_count r)) rows"
    and nums: "map s_no rows = map CInt [1..int (length ps)]"
    and ok: "storable p"
  shows "\<exists>rows'. update_fresh_count p f t (h # rows) = Inr (h # rows')
    \<and> map product_cell rows' = map CStr (if p \<in> set ps then ps else ps @ [p])
    \<and> list_all (\<lambda>r. is_int (fresh_count r)) rows'
    \<and> map s_no rows' = map CInt [1..int (length (if p \<in> set ps then ps else ps @ [p]))]"
proof -
  from scan_rows_succeeds[OF ints, of p f t "lifespan_value p f"]
  obtain rs where rs: "scan_rows p f t (lifespan_value p f) rows
      = Inr (CStr p \<in> set (map product_cell rows), rs)"
    and ints': "list_all (\<lambda>r. is_int (fresh_count r)) rs"
    by blast
  from scan_rows_shape[OF rs]
  have same: "map product_cell rs = map product_cell rows" "map s_no rs = map s_no rows"
    by simp_all
  have mem: "CStr p \<in> set (map product_cell rows) \<longleftrightarrow> p \<in> set ps"
    unfolding prods by auto
  have len: "length rs = length ps"
    using same(1) prods by (metis length_map)
  show ?thesis
  proof (cases "p \<in> set ps")
    case True
    with rs mem have "update_fresh_count p f t (h # rows) = Inr (h # rs)"
      by (simp add: update_fresh_count_def)
    with True same prods nums ints' show ?thesis by simp
  next
    case False
    let ?r = "\<lparr>s_no = CInt (int (length ps) + 1), product_cell = CStr p,
        fresh_count = CInt (if f then 1 else 0), last_detected_time = CStr t,
        life_span = lifespan_value p f\<rparr>"
    from False rs mem len check_string_storable[OF ok]
    have "update_fresh_count p f t (h # rows) = Inr (h # (rs @ [?r]))"
      by (simp add: update_fresh_count_def sheet_append_def max_row_def)
    moreover have "map product_cell (rs @ [?r]) = map CStr (ps @ [p])"
      using same prods by simp
    moreover have "list_all (\<lambda>r. is_int (fresh_count r)) (rs @ [?r])"
      using ints' by simp
    moreover have "map s_no (rs @ [?r]) = map CInt [1..int (length (ps @ [p]))]"
      using same nums by (simp add: upto_snoc_nat)
    ultimately show ?thesis using False by auto
  qed
qed

lemma upserts_run:
  assumes "map product_cell rows = map CStr ps"
    and "distinct ps"
    and "list_all (\<lambda>r. is_int (fresh_count r)) rows"
    and "map s_no rows = map CInt [1..int (length ps)]"
    and "\<forall>c\<in>set calls. storable (fst c)"
  shows "\<exists>rows'. upserts calls (h # rows) = Inr (h # rows')
    \<and> map product_cell rows' = map CStr (first_seen ps (map fst calls))
    \<and> list_all (\<lambda>r. is_int (fresh_count r)) rows'
    \<and> map s_no rows' = map CInt [1..int (length (first_seen ps (map fst calls)))]"
  using assms
proof (induction calls arbitrary: rows ps)
  case Nil
  then show ?case by simp
next
  case (Cons c calls)
  obtain p f t where c: "c = (p, f, t)" by (cases c) auto
  let ?ps = "if p \<in> set ps then ps else ps @ [p]"
  from Cons.prems(5) c have ok: "storable p" and rest: "\<forall>c\<in>set calls. storable (fst c)"
    by simp_all
  from update_step[OF Cons.prems(1-4) ok, of f t h]
  obtain rows1 where step: "update_fresh_count p f t (h # rows) = Inr (h # rows1)"
    and j: "map product_cell rows1 = map CStr ?ps"
      "list_all (\<lambda>r. is_int (fresh_count r)) rows1"
      "map s_no rows1 = map CInt [1..int (length ?ps)]"
    by blast
  from Cons.prems(2) have d: "distinct ?ps" by simp
  from Cons.IH[OF j(1) d j(2) j(3) rest] step c show ?case by simp
qed

lemma numbered_kept:
  assumes "numbered sh"
  shows "numbered (sheet_after p f t sh)"
proof (cases p f t sh rule: sheet_after_cases)
  case raised
  with assms show ?thesis by simp
next
  case (updated rows')
  from assms obtain h rows where sh: "sh = h # rows" by (cases sh) (auto simp: numbered_def)
  from scan_rows_shape[OF updated(1)] sh have same: "map s_no rows' = map s_no rows" by simp
  then have "length rows' = length rows" by (metis length_map)
  with assms sh same updated(2) show ?thesis by (simp add: numbered_def)
next
  case (appended r)
  from assms obtain h rows where sh: "sh = h # rows" by (cases sh) (auto simp: numbered_def)
  with assms appended(2,4) show ?thesis
    by (simp add: numbered_def max_row_def upto_snoc_nat)
next
  case refused
  from assms obtain h rows where sh: "sh = h # rows" by (cases sh) (auto simp: numbered_def)
  with assms refused(3) show ?thesis
    by (simp add: numbered_def max_row_def half_row_def upto_snoc_nat)
qed

lemma sheet_after_one_row:
  assumes "one_row_per_product sh" and "length product \<le> max_string_length"
  shows "one_row_per_product (sheet_after product is_fresh now sh)
    \<and> length sh \<le> length (sheet_after product is_fresh now sh)
    \<and> take (length sh) (map product_cell (sheet_after product is_fresh now sh)) = map product_cell sh"
proof (cases product is_fresh now sh rule: sheet_after_cases)
  case raised
  with assms show ?thesis by simp
next
  case (updated rows')
  from scan_rows_shape[OF updated(1)]
  have same: "map product_cell rows' = map product_cell (drop 1 sh)" by simp
  then have len: "length rows' = length (drop 1 sh)" by (metis length_map)
  have "map product_cell (take 1 sh @ rows') = map product_cell sh"
    using same by (cases sh) simp_all
  moreover from len have "length (take 1 sh @ rows') = length sh" by (cases sh) simp_all
  moreover have "product_values (take 1 sh @ rows') = product_values sh"
    unfolding product_values_def drop_1_take_1_append[OF len] same ..
  ultimately show ?thesis using assms updated(2) by (simp add: one_row_per_product_def)
next
  case (appended r)
  have "product \<notin> set (product_values sh)"
    using appended(1) by (simp add: product_values_def cell_strings_mem)
  with assms appended(3) have "one_row_per_product (sh @ [r])"
    by (cases sh) (simp_all add: one_row_per_product_def product_values_def cell_strings_append)
  with appended(2) show ?thesis by simp
next
  case refused
  from refused(2) have "product_values (sh @ [half_row (max_row sh)]) = product_values sh"
    by (cases sh) (simp_all add: product_values_def cell_strings_append half_row_def)
  with assms(1) refused(3) show ?thesis by (simp add: one_row_per_product_def)
qed

lemma sheet_after_count:
  assumes "i < length sh" and "fresh_count (sh ! i) = CInt n"
  shows "\<exists>m. fresh_count (sheet_after product is_fresh now sh ! i) = CInt m \<and> n \<le> m \<and> m \<le> n + 1
    \<and> product_cell (sheet_after product is_fresh now sh ! i) = product_cell (sh ! i)
    \<and> (n < m \<longrightarrow> is_fresh \<and> product_cell (sh ! i) = CStr product)"
proof (cases product is_fresh now sh rule: sheet_after_cases)
  case raised
  with assms show ?thesis by simp
next
  case (updated rows')
  from assms(1) obtain h rows where sh: "sh = h # rows" by (cases sh) auto
  from scan_rows_shape[OF updated(1)] sh
  have same: "map product_cell rows' = map product_cell rows" by simp
  then have len: "length rows' = length rows" by (metis length_map)
  show ?thesis
  proof (cases i)
    case 0
    with assms sh updated(2) show ?thesis by simp
  next
    case (Suc k)
    with assms(1) sh have k: "k < length rows" by simp
    from updated(1) sh have "scan_rows product is_fresh now (lifespan_value product is_fresh) rows = Inr (True, rows')"
      by simp
    from scan_rows_counts[OF this k] assms(2) sh Suc
    have "fresh_count (rows' ! k) = CInt n
      \<or> (is_fresh \<and> product_cell (rows ! k) = CStr product \<and> fresh_count (rows' ! k) = CInt (n + 1))"
      by auto
    moreover from same k len have "product_cell (rows' ! k) = product_cell (rows ! k)"
      by (metis nth_map)
    ultimately show ?thesis using sh Suc updated(2) by auto
  qed
next
  case (appended r)
  with assms show ?thesis by (simp add: nth_append)
next
  case refused
  with assms show ?thesis by (simp add: nth_append)
qed

lemma sheet_after_length: "length sh \<le> length (sheet_after p f t sh)"
proof (cases p f t sh rule: sheet_after_cases)
  case raised
  then show ?thesis by simp
next
  case (updated rows')
  from scan_rows_shape[OF updated(1)]
  have "map s_no rows' = map s_no (drop 1 sh)" by simp
  then have "length rows' = length (drop 1 sh)" by (metis length_map)
  with updated(2) show ?thesis by (cases sh) simp_all
next
  case (appended r)
  then show ?thesis by simp
next
  case refused
  then show ?thesis by simp
qed

lemma sheet_after_products:
  "take (length sh) (map product_cell (sheet_after p f t sh)) = map product_cell sh"
proof (cases p f t sh rule: sheet_after_cases)
  case raised
  then show ?thesis by simp
next
  case (updated rows')
  from scan_rows_shape[OF updated(1)]
  have same: "map product_cell rows' = map product_cell (drop 1 sh)" by simp
  then have "map product_cell (take 1 sh @ rows') = map product_cell sh"
    by (cases sh) simp_all
  with updated(2) show ?thesis by simp
next
  case (appended r)
  then show ?thesis by simp
next
  case refused
  then show ?thesis by simp
qed

lemma ledger_row_after_update:
  assumes "sh \<noteq> []" and "update_fresh_count p f t sh = Inr sh'"
    and "length p \<le> max_string_length"
  shows "\<exists>r. ledger_row p sh' = Some r \<and> last_detected_time r = CStr t
    \<and> life_span r = lifespan_value p f"
proof -
  from assms(1) obtain h rows where sh: "sh = h # rows" by (cases sh) auto
  show ?thesis
  proof (cases "ledger_row p sh")
    case None
    with sh have absent: "\<forall>r\<in>set rows. product_cell r \<noteq> CStr p"
      by (auto simp: ledger_row_def find_None_iff)
    let ?r = "\<lparr>s_no = CInt (max_row sh), product_cell = CStr p,
        fresh_count = CInt (if f then 1 else 0), last_detected_time = CStr t,
        life_span = lifespan_value p f\<rparr>"
    from absent sh have "\<forall>r\<in>set (drop 1 sh). product_cell r \<noteq> CStr p" by simp
    from update_absent[OF this, of f t] assms(2)
    obtain v where v: "check_string p = Inr v"
      and app: "sh' = sh @ [\<lparr>s_no = CInt (max_row sh), product_cell = CStr v,
          fresh_count = CInt (if f then 1 else 0), last_detected_time = CStr t,
          life_span = lifespan_value p f\<rparr>]"
      by (auto simp: sheet_append_def split: sum.splits)
    from check_string_short[OF assms(3) v] app sh
    have sh': "sh' = h # (rows @ [?r])" by simp
    have "length rows < length (rows @ [?r])" "product_cell ((rows @ [?r]) ! length rows) = CStr p"
      "\<forall>j<length rows. product_cell ((rows @ [?r]) ! j) \<noteq> CStr p"
      using absent by (simp_all add: nth_append)
    from ledger_row_first_match[OF this, of h] sh'
    have "ledger_row p sh' = Some ?r" by simp
    then show ?thesis by simp
  next
    case (Some r0)
    with sh obtain i where i: "i < length rows" and at: "product_cell (rows ! i) = CStr p"
      and before: "\<forall>j<i. product_cell (rows ! j) \<noteq> CStr p"
      by (auto simp: ledger_row_def find_Some_iff)
    from update_first_match[OF i at before, of f t h] assms(2) sh
    obtain c where sh': "sh' = h # rows[i := (rows ! i)\<lparr>fresh_count := c,
        last_detected_time := CStr t, life_span := lifespan_value p f\<rparr>]"
      by (auto split: sum.splits)
    let ?r = "(rows ! i)\<lparr>fresh_count := c, last_detected_time := CStr t,
        life_span := lifespan_value p f\<rparr>"
    have "i < length (rows[i := ?r])" "product_cell (rows[i := ?r] ! i) = CStr p"
      "\<forall>j<i. product_cell (rows[i := ?r] ! j) \<noteq> CStr p"
      using i at before by simp_all
    from ledger_row_first_match[OF this, of h] sh' i
    have "ledger_row p sh' = Some ?r" by simp
    then show ?thesis by simp
  qed
qed

text \<open>The product of 32768 characters: what a cell keeps of it, and that no table holds it.\<close>

lemma length_long_product: "length long_product = max_string_length"
  by (simp add: long_product_def)

lemma long_product_legal: "\<not> list_ex illegal_character long_product"
  by (simp add: long_product_def list_ex_iff illegal_character_def)

lemma check_string_too_long: "check_string too_long_product = Inr long_product"
  using long_product_legal
  by (simp add: check_string_def too_long_product_def length_long_product)

lemma too_long_product_differs:
  "too_long_product \<noteq> long_product" "long_product \<noteq> too_long_product"
  by (simp_all add: too_long_product_def)

lemma too_long_product_not_short:
  assumes "length k < 10"
  shows "k \<noteq> too_long_product" "too_long_product \<noteq> k"
proof -
  have "length too_long_product = Suc max_string_length"
    by (simp add: too_long_product_def length_long_product)
  with assms show "k \<noteq> too_long_product" "too_long_product \<noteq> k"
    by (auto simp: max_string_length_def)
qed

lemma lifespan_too_long_product:
  "lifespan_value too_long_product is_fresh = (if is_fresh then CStr ''Unknown'' else CStr ''N/A'')"
  by (simp add: lifespan_value_def expected_life_span_def too_long_product_not_short)

section \<open>Facts about the interpreter\<close>

lemma round_90:
  assumes "179 / 2 \<le> x" and "x \<le> 181 / 2"
  shows "round_half_even x = 90"
proof -
  have lo: "89 \<le> \<lfloor>x\<rfloor>" using assms(1) by (simp add: le_floor_iff)
  have hi: "\<lfloor>x\<rfloor> < 91" using assms(2) by (simp add: floor_less_iff)
  from lo hi have "\<lfloor>x\<rfloor> = 89 \<or> \<lfloor>x\<rfloor> = 90" by arith
  then show ?thesis
  proof
    assume f: "\<lfloor>x\<rfloor> = 89"
    then show ?thesis using assms by (simp add: round_half_even_def Let_def)
  next
    assume f: "\<lfloor>x\<rfloor> = 90"
    then show ?thesis using assms by (simp add: round_half_even_def Let_def)
  qed
qed

lemma format_2f_090:
  assumes "179 / 200 \<le> c" and "c \<le> 181 / 200"
  shows "format_2f c = ''0.90''"
proof -
  from assms have "179 / 2 \<le> \<bar>c\<bar> * 100" "\<bar>c\<bar> * 100 \<le> 181 / 2" by simp_all
  then have "round_half_even (\<bar>c\<bar> * 100) = 90" by (rule round_90)
  moreover have "\<not> c < 0" using assms by simp
  moreover have "str_nat 0 = ''0''" by code_simp
  moreover have "digit_char 9 = CHR ''9''" "digit_char 0 = CHR ''0''" by code_simp+
  ultimately show ?thesis by (simp add: format_2f_def)
qed

text \<open>The eight labels, split; a negative index reads the table from its end.\<close>

lemma interpret_label_in_range:
  assumes "- 8 \<le> i" and "i < 8"
  shows "interpret_label i = Inr (label_pairs ! nat (i mod 8))"
proof -
  from assms have "i = -8 \<or> i = -7 \<or> i = -6 \<or> i = -5 \<or> i = -4 \<or> i = -3 \<or> i = -2 \<or> i = -1
      \<or> i = 0 \<or> i = 1 \<or> i = 2 \<or> i = 3 \<or> i = 4 \<or> i = 5 \<or> i = 6 \<or> i = 7"
    by arith
  then show ?thesis
    by (elim disjE)
       (simp_all add: interpret_label_def list_getitem_def label_encoder_def label_pairs_def)
qed

lemma interpret_label_out_of_range:
  assumes "i < - 8 \<or> 8 \<le> i"
  shows "interpret_label i = Inl IndexError"
  using assms by (auto simp: interpret_label_def list_getitem_def label_encoder_def)

lemma interpret_label_Inr:
  assumes "interpret_label i = Inr (product, freshness)"
  shows "(product, freshness) \<in> set label_pairs"
proof (cases "- 8 \<le> i \<and> i < 8")
  case True
  then have "- 8 \<le> i" "i < 8" by simp_all
  from interpret_label_in_range[OF this] assms
  have "(product, freshness) = label_pairs ! nat (i mod 8)" by simp
  moreover from True have "nat (i mod 8) < length label_pairs"
    by (simp add: label_pairs_def nat_less_iff)
  ultimately show ?thesis by (metis nth_mem)
next
  case False
  then have "i < - 8 \<or> 8 \<le> i" by arith
  from interpret_label_out_of_range[OF this] assms show ?thesis by simp
qed

lemma label_pairs_storable: "(product, freshness) \<in> set label_pairs \<Longrightarrow> storable product"
  by (auto simp: label_pairs_def storable_def max_string_length_def illegal_character_def)

lemma label_pairs_freshness:
  "(product, freshness) \<in> set label_pairs \<Longrightarrow> freshness = ''fresh'' \<or> freshness = ''stale''"
  by (auto simp: label_pairs_def)

lemma interpret_label_storable:
  "interpret_label i = Inr (product, freshness) \<Longrightarrow> storable product"
  by (rule label_pairs_storable) (rule interpret_label_Inr)

lemma update_keeps_counts_ints:
  assumes "counts_are_ints sh" and "storable p"
  shows "\<exists>sh'. update_fresh_count p f t sh = Inr sh' \<and> counts_are_ints sh'"
proof -
  from assms have ints: "list_all (\<lambda>r. is_int (fresh_count r)) (drop 1 sh)"
    by (simp add: counts_are_ints_def)
  from scan_rows_succeeds[OF ints, of p f t "lifespan_value p f"]
  obtain rs where rs: "scan_rows p f t (lifespan_value p f) (drop 1 sh)
      = Inr (CStr p \<in> set (map product_cell (drop 1 sh)), rs)"
    and ints': "list_all (\<lambda>r. is_int (fresh_count r)) rs"
    by blast
  from scan_rows_shape[OF rs] have "map s_no rs = map s_no (drop 1 sh)" by simp
  then have len: "length rs = length (drop 1 sh)" by (metis length_map)
  note ok = check_string_storable[OF assms(2)]
  show ?thesis
  proof (cases sh)
    case Nil
    with rs ok show ?thesis
      by (simp add: update_fresh_count_def sheet_append_def counts_are_ints_def)
  next
    case (Cons h rows)
    with rs ints' ok show ?thesis
      by (simp add: update_fresh_count_def sheet_append_def counts_are_ints_def Let_def)
  qed
qed

lemma boxes_loop_filter:
  "boxes_loop clock (filter (\<lambda>b. CONFIDENCE_THRESHOLD \<le> conf b) boxes) predictions w
   = boxes_loop clock boxes predictions w"
proof (induction boxes arbitrary: predictions w)
  case Nil
  show ?case by simp
next
  case (Cons b boxes)
  show ?case
  proof (cases "conf b < CONFIDENCE_THRESHOLD")
    case True
    then have "\<not> CONFIDENCE_THRESHOLD \<le> conf b" by simp
    with True Cons.IH show ?thesis by simp
  next
    case False
    then have "CONFIDENCE_THRESHOLD \<le> conf b" by simp
    with False Cons.IH show ?thesis
      by (simp add: Let_def split: sum.splits prod.splits)
  qed
qed

lemma results_loop_filter:
  "results_loop clock (map (filter (\<lambda>b. CONFIDENCE_THRESHOLD \<le> conf b)) results) predictions w
   = results_loop clock results predictions w"
  by (induction results arbitrary: predictions w)
     (simp_all add: boxes_loop_filter split: sum.splits prod.splits)

lemma boxes_loop_all_below:
  "\<forall>b\<in>set boxes. conf b < CONFIDENCE_THRESHOLD \<Longrightarrow>
   boxes_loop clock boxes predictions w = (Inr predictions, w)"
  by (induction boxes) simp_all

lemma results_loop_all_below:
  "\<forall>b\<in>set (concat results). conf b < CONFIDENCE_THRESHOLD \<Longrightarrow>
   results_loop clock results predictions w = (Inr predictions, w)"
  by (induction results) (simp_all add: boxes_loop_all_below)

lemma boxes_loop_returns:
  assumes "counts_are_ints (sheet w)"
    and "\<forall>b\<in>set boxes. CONFIDENCE_THRESHOLD \<le> conf b \<longrightarrow> - 8 \<le> cls b \<and> cls b < 8"
  shows "\<exists>new w'. boxes_loop clock boxes predictions w = (Inr (predictions @ new), w')
    \<and> length new = length (filter (\<lambda>b. CONFIDENCE_THRESHOLD \<le> conf b) boxes)
    \<and> now_calls w' = now_calls w + length new
    \<and> counts_are_ints (sheet w')"
  using assms
proof (induction boxes arbitrary: predictions w)
  case Nil
  then show ?case by simp
next
  case (Cons b boxes)
  from Cons.prems(2) have rest: "\<forall>b\<in>set boxes. CONFIDENCE_THRESHOLD \<le> conf b \<longrightarrow> - 8 \<le> cls b \<and> cls b < 8"
    by simp
  show ?case
  proof (cases "conf b < CONFIDENCE_THRESHOLD")
    case True
    then have "\<not> CONFIDENCE_THRESHOLD \<le> conf b" by simp
    with True Cons.IH[OF Cons.prems(1) rest, of predictions] show ?thesis by simp
  next
    case False
    then have keep: "CONFIDENCE_THRESHOLD \<le> conf b" by simp
    with Cons.prems(2) have "- 8 \<le> cls b" "cls b < 8" by simp_all
    from interpret_label_in_range[OF this]
    obtain product freshness where lab: "interpret_label (cls b) = Inr (product, freshness)"
      by (metis surj_pair)
    from update_keeps_counts_ints[OF Cons.prems(1) interpret_label_storable[OF lab]]
    obtain sh' where up: "update_fresh_count product (freshness = ''fresh'') (clock (now_calls w)) (sheet w) = Inr sh'"
      and ints: "counts_are_ints sh'"
      by blast
    let ?w = "w\<lparr>sheet := sh', now_calls := Suc (now_calls w)\<rparr>"
    let ?r = "\<lparr>Product = capitalize product, Freshness = capitalize freshness,
        Confidence = format_2f (conf b)\<rparr>"
    from ints have "counts_are_ints (sheet ?w)" by simp
    from Cons.IH[OF this rest, of "predictions @ [?r]"]
    obtain new w' where loop: "boxes_loop clock boxes (predictions @ [?r]) ?w = (Inr ((predictions @ [?r]) @ new), w')"
      and len: "length new = length (filter (\<lambda>b. CONFIDENCE_THRESHOLD \<le> conf b) boxes)"
      and calls: "now_calls w' = now_calls ?w + length new"
      and ints': "counts_are_ints (sheet w')"
      by blast
    from False lab up loop
    have "boxes_loop clock (b # boxes) predictions w = (Inr (predictions @ (?r # new)), w')"
      by (simp add: call_update_fresh_count_def)
    moreover from keep len have "length (?r # new) = length (filter (\<lambda>b. CONFIDENCE_THRESHOLD \<le> conf b) (b # boxes))"
      by simp
    moreover from calls have "now_calls w' = now_calls w + length (?r # new)" by simp
    ultimately show ?thesis using ints' by blast
  qed
qed

lemma results_loop_returns:
  assumes "counts_are_ints (sheet w)"
    and "\<forall>b\<in>set (concat results). CONFIDENCE_THRESHOLD \<le> conf b \<longrightarrow> - 8 \<le> cls b \<and> cls b < 8"
  shows "\<exists>new w'. results_loop clock results predictions w = (Inr (predictions @ new), w')
    \<and> length new = length (filter (\<lambda>b. CONFIDENCE_THRESHOLD \<le> conf b) (concat results))
    \<and> now_calls w' = now_calls w + length new
    \<and> counts_are_ints (sheet w')"
  using assms
proof (induction results arbitrary: predictions w)
  case Nil
  then show ?case by simp
next
  case (Cons result results)
  from Cons.prems(2) have one: "\<forall>b\<in>set result. CONFIDENCE_THRESHOLD \<le> conf b \<longrightarrow> - 8 \<le> cls b \<and> cls b < 8"
    and rest: "\<forall>b\<in>set (concat results). CONFIDENCE_THRESHOLD \<le> conf b \<longrightarrow> - 8 \<le> cls b \<and> cls b < 8"
    by simp_all
  from boxes_loop_returns[OF Cons.prems(1) one, of clock predictions]
  obtain new1 w1 where b: "boxes_loop clock result predictions w = (Inr (predictions @ new1), w1)"
    and len1: "length new1 = length (filter (\<lambda>b. CONFIDENCE_THRESHOLD \<le> conf b) result)"
    and calls1: "now_calls w1 = now_calls w + length new1"
    and ints1: "counts_are_ints (sheet w1)"
    by blast
  from Cons.IH[OF ints1 rest, of "predictions @ new1"]
  obtain new2 w2 where r: "results_loop clock results (predictions @ new1) w1 = (Inr ((predictions @ new1) @ new2), w2)"
    and len2: "length new2 = length (filter (\<lambda>b. CONFIDENCE_THRESHOLD \<le> conf b) (concat results))"
    and calls2: "now_calls w2 = now_calls w1 + length new2"
    and ints2: "counts_are_ints (sheet w2)"
    by blast
  from b r have "results_loop clock (result # results) predictions w = (Inr (predictions @ (new1 @ new2)), w2)"
    by simp
  moreover from len1 len2 have "length (new1 @ new2) = length (filter (\<lambda>b. CONFIDENCE_THRESHOLD \<le> conf b) (concat (result # results)))"
    by simp
  moreover from calls1 calls2 have "now_calls w2 = now_calls w + length (new1 @ new2)" by simp
  ultimately show ?case using ints2 by blast
qed

lemma capitalize_words:
  "capitalize ''apple'' = ''Apple''" "capitalize ''fresh'' = ''Fresh''"
  "capitalize ''stale'' = ''Stale''"
  by code_simp+

text \<open>The two loops are one loop over the detections of all results.\<close>

lemma boxes_loop_append:
  "boxes_loop clock (xs @ ys) predictions w =
     (case boxes_loop clock xs predictions w of
        (Inl e, w') \<Rightarrow> (Inl e, w')
      | (Inr ps, w') \<Rightarrow> boxes_loop clock ys ps w')"
  by (induction xs arbitrary: predictions w)
     (simp_all add: Let_def split: sum.splits prod.splits)

lemma results_loop_concat:
  "results_loop clock results predictions w = boxes_loop clock (concat results) predictions w"
  by (induction results arbitrary: predictions w)
     (simp_all add: boxes_loop_append split: sum.splits prod.splits)

text \<open>
  The loop is the labelling of the detections that reach the threshold, the calls of the
  ledger upsert for them in order, and the records of them.
\<close>

lemma boxes_loop_labelled:
  "boxes_loop clock boxes predictions w =
     (case labels_of (filter (\<lambda>b. CONFIDENCE_THRESHOLD \<le> conf b) boxes) of
        (ls, bad) \<Rightarrow>
          (case upsert_each clock (map call_of ls) w of
             (Some e, w') \<Rightarrow> (Inl e, w')
           | (None, w') \<Rightarrow>
               (case bad of
                  Some e \<Rightarrow> (Inl e, w')
                | None \<Rightarrow> (Inr (predictions @ map record_of ls), w'))))"
proof (induction boxes arbitrary: predictions w)
  case Nil
  show ?case by simp
next
  case (Cons b boxes)
  show ?case
  proof (cases "conf b < CONFIDENCE_THRESHOLD")
    case True
    then have "\<not> CONFIDENCE_THRESHOLD \<le> conf b" by simp
    with True Cons.IH show ?thesis by simp
  next
    case False
    then have keep: "CONFIDENCE_THRESHOLD \<le> conf b" by simp
    show ?thesis
    proof (cases "interpret_label (cls b)")
      case (Inl e)
      with False keep show ?thesis by simp
    next
      case (Inr pf)
      obtain p fr where pf: "pf = (p, fr)" by (cases pf) auto
      obtain ls bad where ls: "labels_of (filter (\<lambda>b. CONFIDENCE_THRESHOLD \<le> conf b) boxes) = (ls, bad)"
        by (cases "labels_of (filter (\<lambda>b. CONFIDENCE_THRESHOLD \<le> conf b) boxes)") auto
      show ?thesis
      proof (cases "call_update_fresh_count clock p (fr = ''fresh'') w")
        case (Inl ew)
        obtain e w' where "ew = (e, w')" by (cases ew) auto
        with Inl Inr pf ls False keep show ?thesis by simp
      next
        case call: (Inr w1)
        let ?r = "\<lparr>Product = capitalize p, Freshness = capitalize fr,
            Confidence = format_2f (conf b)\<rparr>"
        from Inr pf call False
        have "boxes_loop clock (b # boxes) predictions w
            = boxes_loop clock boxes (predictions @ [?r]) w1"
          by simp
        also note Cons.IH[of "predictions @ [?r]" w1]
        finally show ?thesis using Inr pf call ls keep
          by (simp split: prod.splits option.splits)
      qed
    qed
  qed
qed

lemma detect_and_classify_labelled:
  assumes "imread image_path = Some img"
  shows "detect_and_classify imread model clock image_path w =
     (case labels_of (kept (model img)) of
        (ls, bad) \<Rightarrow>
          (case upsert_each clock (map call_of ls) w of
             (Some e, w') \<Rightarrow> (Inl e, w')
           | (None, w') \<Rightarrow>
               (case bad of
                  Some e \<Rightarrow> (Inl e, w')
                | None \<Rightarrow> (Inr (Some (map record_of ls)), w'))))"
  using assms
  by (simp add: detect_and_classify_def results_loop_concat kept_def
      boxes_loop_labelled[of clock "concat (model img)" "[]" w]
      split: prod.splits option.splits)

lemma labels_of_pairs:
  "labels_of bs = (ls, bad) \<Longrightarrow> \<forall>l\<in>set ls. (fst l, fst (snd l)) \<in> set label_pairs"
proof (induction bs arbitrary: ls bad)
  case Nil
  then show ?case by simp
next
  case (Cons b bs)
  show ?case
  proof (cases "interpret_label (cls b)")
    case (Inl e)
    with Cons.prems show ?thesis by simp
  next
    case (Inr pf)
    obtain p fr where pf: "pf = (p, fr)" by (cases pf) auto
    obtain ls' bad' where rest: "labels_of bs = (ls', bad')" by (cases "labels_of bs") auto
    from Inr pf have "(p, fr) \<in> set label_pairs" by (simp add: interpret_label_Inr)
    with Cons.IH[OF rest] Cons.prems Inr pf rest show ?thesis by auto
  qed
qed

lemma labels_of_in_range:
  assumes "\<forall>b\<in>set bs. - 8 \<le> cls b \<and> cls b < 8"
  shows "labels_of bs
    = (map (\<lambda>b. (fst (label_pairs ! nat (cls b mod 8)), snd (label_pairs ! nat (cls b mod 8)), conf b)) bs,
       None)"
  using assms
proof (induction bs)
  case Nil
  show ?case by simp
next
  case (Cons b bs)
  then have "- 8 \<le> cls b" "cls b < 8" by simp_all
  from interpret_label_in_range[OF this] Cons show ?case
    by (cases "label_pairs ! nat (cls b mod 8)") simp
qed

lemma upsert_each_st_errors: "st_errors (snd (upsert_each clock calls w)) = st_errors w"
proof (induction calls arbitrary: w)
  case Nil
  show ?case by simp
next
  case (Cons c calls)
  obtain p f where c: "c = (p, f)" by (cases c) auto
  show ?case
  proof (cases "call_update_fresh_count clock p f w")
    case (Inl ew)
    then show ?thesis using c
      by (cases ew) (auto simp: call_update_fresh_count_def split: sum.splits)
  next
    case (Inr w')
    then have "st_errors w' = st_errors w"
      by (auto simp: call_update_fresh_count_def split: sum.splits)
    with Cons.IH[of w'] Inr c show ?thesis by simp
  qed
qed

text \<open>
  A property of the worksheet that every call of \<open>update_fresh_count\<close> for a product of
  the label table keeps, returning or raising, is kept by \<open>detect_and_classify\<close>,
  however it ends.
\<close>

lemma call_update_sheet:
  "sheet (case call_update_fresh_count clock p f w of Inl (e, w') \<Rightarrow> w' | Inr w' \<Rightarrow> w')
   = sheet_after p f (clock (now_calls w)) (sheet w)"
  by (simp add: call_update_fresh_count_def sheet_after_def split: sum.splits prod.splits)

lemma upsert_each_invariant:
  assumes step: "\<And>p f t sh. storable p \<Longrightarrow> P sh \<Longrightarrow> P (sheet_after p f t sh)"
    and "P (sheet w)" and "\<forall>c\<in>set calls. storable (fst c)"
  shows "P (sheet (snd (upsert_each clock calls w)))"
  using assms(2,3)
proof (induction calls arbitrary: w)
  case Nil
  then show ?case by simp
next
  case (Cons c calls)
  obtain p f where c: "c = (p, f)" by (cases c) auto
  with Cons.prems(2) have ok: "storable p" and rest: "\<forall>c\<in>set calls. storable (fst c)"
    by simp_all
  from step[OF ok Cons.prems(1), of f "clock (now_calls w)"]
  have after: "P (sheet (case call_update_fresh_count clock p f w of Inl (e, w') \<Rightarrow> w' | Inr w' \<Rightarrow> w'))"
    by (simp only: call_update_sheet)
  show ?case
  proof (cases "call_update_fresh_count clock p f w")
    case (Inl ew)
    obtain e w' where "ew = (e, w')" by (cases ew) auto
    with Inl after c show ?thesis by simp
  next
    case (Inr w')
    with after have "P (sheet w')" by simp
    from Cons.IH[OF this rest] Inr c show ?thesis by simp
  qed
qed

lemma detect_and_classify_invariant:
  assumes step: "\<And>p f t sh. storable p \<Longrightarrow> P sh \<Longrightarrow> P (sheet_after p f t sh)"
    and "P (sheet w)"
  shows "P (sheet (snd (detect_and_classify imread model clock image_path w)))"
proof (cases "imread image_path")
  case None
  with assms(2) show ?thesis by (simp add: detect_and_classify_def)
next
  case (Some img)
  obtain ls bad where ls: "labels_of (kept (model img)) = (ls, bad)"
    by (cases "labels_of (kept (model img))") auto
  have "\<forall>c\<in>set (map call_of ls). storable (fst c)"
  proof
    fix c assume "c \<in> set (map call_of ls)"
    then obtain l where l: "l \<in> set ls" and c: "c = call_of l" by auto
    obtain p fr x where "l = (p, fr, x)" by (cases l) auto
    with labels_of_pairs[OF ls] l c have "(p, fr) \<in> set label_pairs" "fst c = p" by auto
    then show "storable (fst c)" by (simp add: label_pairs_storable)
  qed
  from upsert_each_invariant[of P, OF step assms(2) this]
  have "P (sheet (snd (upsert_each clock (map call_of ls) w)))" .
  moreover have "sheet (snd (detect_and_classify imread model clock image_path w))
      = sheet (snd (upsert_each clock (map call_of ls) w))"
    by (simp add: detect_and_classify_labelled[of imread image_path img, OF Some] ls
        split: prod.splits option.splits)
  ultimately show ?thesis by simp
qed

text \<open>
  Two limits of the properties below. A fresh detection of a product whose
  row has no integer in its Fresh Count cell raises \<open>TypeError\<close>; and on a worksheet
  whose next row is row 1 the first row appended is row 1, which the scan never reads.
\<close>

lemma update_raises_without_count:
  assumes "i < length rows"
    and "product_cell (rows ! i) = CStr product"
    and "\<forall>j<i. product_cell (rows ! j) \<noteq> CStr product"
    and "\<not> is_int (fresh_count (rows ! i))"
  shows "update_fresh_count product True now (h # rows) = Inl (TypeError, h # rows)"
  using update_first_match[OF assms(1-3), of True now h] assms(4)
  by (cases "fresh_count (rows ! i)") simp_all

lemma blank_sheet_keeps_row_1_apart:
  assumes "storable product"
  shows "\<exists>r1 r2. upserts [(product, True, t1), (product, True, t2)] [] = Inr [r1, r2]
     \<and> fresh_count r1 = CInt 1 \<and> fresh_count r2 = CInt 1"
  using check_string_storable[OF assms]
  by (simp add: update_fresh_count_def sheet_append_def max_row_def)

text \<open>Values of the string functions at the inputs of the examples.\<close>

lemma capitalize_onion: "capitalize ''onion'' = ''Onion''"
  by code_simp

lemma format_2f_examples: "format_2f (9 / 10) = ''0.90''" "format_2f (3 / 4) = ''0.75''"
  by code_simp+

lemma example_clock_readings:
  "example_clock 0 = ''2024-05-02 08:00:00''" "example_clock (Suc 0) = ''2024-05-02 08:00:01''"
  by code_simp+

lemma check_string_examples:
  "check_string ''apple'' = Inr ''apple''" "check_string ''onion'' = Inr ''onion''"
  by (rule check_string_storable,
      simp add: storable_def max_string_length_def illegal_character_def)+

lemma lifespan_examples:
  "lifespan_value ''apple'' True = CInt 7" "lifespan_value ''onion'' False = CStr ''N/A''"
  by (simp_all add: lifespan_value_def expected_life_span_def)

lemma one_apple_run:
  "detect_and_classify decodable one_apple example_clock ''upload.jpg'' fresh_world =
       (Inr (Some [\<lparr>Product = ''Apple'', Freshness = ''Fresh'', Confidence = ''0.90''\<rparr>]),
        \<lparr>sheet = [header_row,
                  \<lparr>s_no = CInt 1, product_cell = CStr ''apple'', fresh_count = CInt 1,
                     last_detected_time = CStr ''2024-05-02 08:00:00'', life_span = CInt 7\<rparr>],
           st_errors = [], now_calls = 1\<rparr>)"
proof -
  have lab: "interpret_label 0 = Inr (''apple'', ''fresh'')"
    using interpret_label_in_range[of 0] by (simp add: label_pairs_def)
  show ?thesis
    by (simp add: detect_and_classify_def decodable_def one_apple_def CONFIDENCE_THRESHOLD_def
        lab call_update_fresh_count_def update_fresh_count_def sheet_append_def
        check_string_examples lifespan_examples fresh_world_def new_sheet_def max_row_def
        capitalize_words format_2f_examples example_clock_readings
        del: capitalize.simps)
qed

lemma single_detection:
  assumes "imread image_path = Some img" and "model img = [[\<lparr>conf = c, cls = i\<rparr>]]"
    and "CONFIDENCE_THRESHOLD \<le> c" and "interpret_label i = Inr (p, fr)"
  shows "detect_and_classify imread model clock image_path w =
     (case update_fresh_count p (fr = ''fresh'') (clock (now_calls w)) (sheet w) of
        Inl (e, sh') \<Rightarrow>
          (Inl e, w\<lparr>sheet := sh',
                     now_calls := (if e = TypeError then now_calls w else Suc (now_calls w))\<rparr>)
      | Inr sh' \<Rightarrow>
          (Inr (Some [\<lparr>Product = capitalize p, Freshness = capitalize fr,
                        Confidence = format_2f c\<rparr>]),
           w\<lparr>sheet := sh', now_calls := Suc (now_calls w)\<rparr>))"
proof -
  from assms(3) have "\<not> c < CONFIDENCE_THRESHOLD" by simp
  with assms(1,2,4) show ?thesis
    by (simp add: detect_and_classify_def call_update_fresh_count_def
        split: sum.splits prod.splits)
qed

lemma all_detections:
  assumes "imread image_path = Some img"
    and "\<forall>b\<in>set (kept (model img)). - 8 \<le> cls b \<and> cls b < 8"
  shows "detect_and_classify imread model clock image_path w =
     (case upsert_each clock
             (map (\<lambda>b. (fst (label_pairs ! nat (cls b mod 8)),
                         snd (label_pairs ! nat (cls b mod 8)) = ''fresh''))
                (kept (model img))) w of
        (Some e, w') \<Rightarrow> (Inl e, w')
      | (None, w') \<Rightarrow>
          (Inr (Some (map (\<lambda>b. \<lparr>Product = capitalize (fst (label_pairs ! nat (cls b mod 8))),
                                  Freshness = capitalize (snd (label_pairs ! nat (cls b mod 8))),
                                  Confidence = format_2f (conf b)\<rparr>)
                        (kept (model img)))), w'))"
  by (simp add: detect_and_classify_labelled[of imread image_path img, OF assms(1)]
      labels_of_in_range[OF assms(2)] comp_def split: prod.splits option.splits)

lemma label_pairs_spell:
  "map (\<lambda>(product, freshness). product @ ''_'' @ freshness) label_pairs = label_encoder"
  by (simp add: label_pairs_def label_encoder_def)

lemma label_pairs_capitalized:
  "map (\<lambda>(product, freshness). (capitalize product, capitalize freshness)) label_pairs =
     [(''Apple'', ''Fresh''), (''Apple'', ''Stale''), (''Onion'', ''Fresh''), (''Onion'', ''Stale''),
      (''Carrot'', ''Fresh''), (''Carrot'', ''Stale''), (''Tomato'', ''Fresh''),
      (''Tomato'', ''Stale'')]"
  unfolding label_pairs_def by code_simp

section \<open>Properties of the ledger upsert\<close>

text \<open>
  C1. A call for a product whose first matching ledger row is row \<open>i + 1\<close> (at least row 2)
  returns, and changes that row only: Fresh Count goes up by one when \<open>is_fresh\<close> and stays
  otherwise, Last Detected Time becomes the clock reading of the call, and Expected Life
  Span becomes \<open>N/A\<close> when not fresh, the table's entry when fresh and the product is in
  the table, and \<open>Unknown\<close> when fresh and the product is not. The Fresh Count cell of
  a ledger row holds an integer; the hypothesis is needed only when \<open>is_fresh\<close>.
\<close>

theorem update_existing_row:
  assumes "1 \<le> i" and "i < length sh"
    and "product_cell (sh ! i) = CStr product"
    and "\<forall>j. 1 \<le> j \<and> j < i \<longrightarrow> product_cell (sh ! j) \<noteq> CStr product"
    and "is_fresh \<longrightarrow> fresh_count (sh ! i) = CInt n"
  shows "\<exists>r. update_fresh_count product is_fresh now sh = Inr (sh[i := r])
    \<and> s_no r = s_no (sh ! i) \<and> product_cell r = CStr product
    \<and> fresh_count r = (if is_fresh then CInt (n + 1) else fresh_count (sh ! i))
    \<and> last_detected_time r = CStr now
    \<and> (\<not> is_fresh \<longrightarrow> life_span r = CStr ''N/A'')
    \<and> (is_fresh \<longrightarrow> (\<forall>days. expected_life_span product = Some days \<longrightarrow> life_span r = CInt days))
    \<and> (is_fresh \<and> expected_life_span product = None \<longrightarrow> life_span r = CStr ''Unknown'')"
proof -
  from assms(1,2) obtain h rows k where sh: "sh = h # rows" and i: "i = Suc k"
    by (cases sh; cases i) auto
  from assms sh i have k: "k < length rows" "product_cell (rows ! k) = CStr product" by auto
  have first: "\<forall>j<k. product_cell (rows ! j) \<noteq> CStr product"
  proof (intro allI impI)
    fix j assume "j < k"
    with assms(4) i have "product_cell (sh ! Suc j) \<noteq> CStr product" by auto
    with sh show "product_cell (rows ! j) \<noteq> CStr product" by simp
  qed
  let ?r = "(rows ! k)\<lparr>fresh_count := (if is_fresh then CInt (n + 1) else fresh_count (rows ! k)),
     last_detected_time := CStr now, life_span := lifespan_value product is_fresh\<rparr>"
  from assms(5) sh i have "update_fresh_count product is_fresh now sh = Inr (sh[i := ?r])"
    by (simp add: update_first_match[OF k first])
  moreover have "s_no ?r = s_no (sh ! i)" "product_cell ?r = CStr product"
    "fresh_count ?r = (if is_fresh then CInt (n + 1) else fresh_count (sh ! i))"
    using sh i k by simp_all
  moreover have "last_detected_time ?r = CStr now" by simp
  moreover have "\<not> is_fresh \<longrightarrow> life_span ?r = CStr ''N/A''"
    "is_fresh \<longrightarrow> (\<forall>days. expected_life_span product = Some days \<longrightarrow> life_span ?r = CInt days)"
    "is_fresh \<and> expected_life_span product = None \<longrightarrow> life_span ?r = CStr ''Unknown''"
    by (simp_all add: lifespan_value_def)
  ultimately show ?thesis by blast
qed

theorem update_existing_row_witness:
  "\<exists>r. update_fresh_count ''apple'' True ''2024-05-02 08:00:00'' example_sheet
         = Inr (example_sheet[2 := r])
     \<and> fresh_count r = CInt 4 \<and> last_detected_time r = CStr ''2024-05-02 08:00:00''
     \<and> life_span r = CInt 7"
proof -
  have h1: "(1::nat) \<le> 2" by simp
  have h2: "2 < length example_sheet" by (simp add: example_sheet_def)
  have h3: "product_cell (example_sheet ! 2) = CStr ''apple''" by (simp add: example_sheet_def)
  have h4: "\<forall>j. 1 \<le> j \<and> j < 2 \<longrightarrow> product_cell (example_sheet ! j) \<noteq> CStr ''apple''"
  proof (intro allI impI)
    fix j :: nat assume "1 \<le> j \<and> j < 2"
    then have "j = 1" by arith
    then show "product_cell (example_sheet ! j) \<noteq> CStr ''apple''"
      by (simp add: example_sheet_def)
  qed
  have h5: "True \<longrightarrow> fresh_count (example_sheet ! 2) = CInt 3" by (simp add: example_sheet_def)
  have tbl: "expected_life_span ''apple'' = Some 7" by (simp add: expected_life_span_def)
  from update_existing_row[OF h1 h2 h3 h4 h5, of "''2024-05-02 08:00:00''"] tbl
  show ?thesis by auto
qed




text \<open>
  C5, as the code has it. Whatever \<open>is_fresh\<close>, and whether the call returns or raises, a
  call for a product of at most 32767 characters leaves a sheet with at most one ledger
  row for each product value so. For every product, no row is deleted: the sheet is no
  shorter, and every row keeps its place and its Product cell. Both hold across
  \<open>detect_and_classify\<close>, the one other operation that touches the worksheet, whose
  products are those of the label table.
\<close>

theorem upsert_keeps_one_row_per_product:
  "(one_row_per_product sh \<and> length product \<le> max_string_length \<longrightarrow>
      one_row_per_product (sheet_after product is_fresh now sh))
   \<and> length sh \<le> length (sheet_after product is_fresh now sh)
   \<and> take (length sh) (map product_cell (sheet_after product is_fresh now sh)) = map product_cell sh
   \<and> (one_row_per_product (sheet w) \<longrightarrow>
        one_row_per_product (sheet (snd (detect_and_classify imread model clock image_path w))))
   \<and> length (sheet w) \<le> length (sheet (snd (detect_and_classify imread model clock image_path w)))"
proof (intro conjI impI)
  assume "one_row_per_product sh \<and> length product \<le> max_string_length"
  then have "one_row_per_product sh" "length product \<le> max_string_length" by simp_all
  from sheet_after_one_row[OF this]
  show "one_row_per_product (sheet_after product is_fresh now sh)" by simp
next
  show "length sh \<le> length (sheet_after product is_fresh now sh)"
    by (rule sheet_after_length)
next
  show "take (length sh) (map product_cell (sheet_after product is_fresh now sh)) = map product_cell sh"
    by (rule sheet_after_products)
next
  assume one: "one_row_per_product (sheet w)"
  have step: "\<And>p f t sh. storable p \<Longrightarrow> one_row_per_product sh
      \<Longrightarrow> one_row_per_product (sheet_after p f t sh)"
    using sheet_after_one_row by (simp add: storable_def)
  from detect_and_classify_invariant[of one_row_per_product, OF step one]
  show "one_row_per_product (sheet (snd (detect_and_classify imread model clock image_path w)))" .
next
  have "length (sheet w) \<le> length (sheet w)" by simp
  with sheet_after_length
  show "length (sheet w) \<le> length (sheet (snd (detect_and_classify imread model clock image_path w)))"
    by (intro detect_and_classify_invariant[of "\<lambda>s. length (sheet w) \<le> length s"])
       (auto intro: order_trans)
qed

theorem upsert_keeps_one_row_per_product_witness:
  "one_row_per_product example_sheet
   \<and> one_row_per_product (sheet_after ''apple'' True ''2024-05-02 08:00:00'' example_sheet)
   \<and> one_row_per_product
        (sheet (snd (detect_and_classify decodable one_apple example_clock ''upload.jpg'' example_world)))"
proof -
  have h: "one_row_per_product example_sheet"
    by (simp add: one_row_per_product_def product_values_def example_sheet_def)
  have len: "length ''apple'' \<le> max_string_length" by (simp add: max_string_length_def)
  have w: "sheet example_world = example_sheet" by (simp add: example_world_def)
  from upsert_keeps_one_row_per_product[of example_sheet "''apple''" True "''2024-05-02 08:00:00''"
      example_world decodable one_apple example_clock "''upload.jpg''"] h len w
  show ?thesis by simp
qed

text \<open>
  C5 for every product does not hold: on a sheet with the row of a product of 32767
  characters, a call for the product with one character more finds no row and appends
  one, whose Product cell holds the first 32767 characters: two rows of one product value.
\<close>

theorem truncation_breaks_one_row_per_product:
  "one_row_per_product long_sheet
   \<and> \<not> one_row_per_product (sheet_after too_long_product True ''2024-05-02 08:00:00'' long_sheet)"
proof -
  have one: "one_row_per_product long_sheet"
    by (simp add: one_row_per_product_def product_values_def long_sheet_def)
  have absent: "\<forall>r\<in>set (drop 1 long_sheet). product_cell r \<noteq> CStr too_long_product"
    by (simp add: long_sheet_def too_long_product_def)
  from update_absent[OF absent, of True "''2024-05-02 08:00:00''"] check_string_too_long
  have "sheet_after too_long_product True ''2024-05-02 08:00:00'' long_sheet
      = long_sheet @ [\<lparr>s_no = CInt (max_row long_sheet), product_cell = CStr long_product,
          fresh_count = CInt 1, last_detected_time = CStr ''2024-05-02 08:00:00'',
          life_span = lifespan_value too_long_product True\<rparr>]"
    by (simp add: sheet_after_def sheet_append_def)
  then have "\<not> one_row_per_product (sheet_after too_long_product True ''2024-05-02 08:00:00'' long_sheet)"
    by (simp add: one_row_per_product_def product_values_def long_sheet_def)
  with one show ?thesis by simp
qed

text \<open>
  C7. Across one call, whatever its product and \<open>is_fresh\<close> and whether it returns or raises,
  the Fresh Count of a row does not go down, and goes up (by one) only when the call is for
  the product of that row with \<open>is_fresh\<close> true. The row keeps its place and its product.
  Across \<open>detect_and_classify\<close> the count does not go down either: nothing decrements or
  resets it.
\<close>

theorem fresh_count_monotone:
  assumes "i < length sh" and "fresh_count (sh ! i) = CInt n"
  shows "(\<exists>m. fresh_count (sheet_after product is_fresh now sh ! i) = CInt m \<and> n \<le> m \<and> m \<le> n + 1
      \<and> product_cell (sheet_after product is_fresh now sh ! i) = product_cell (sh ! i)
      \<and> (n < m \<longrightarrow> is_fresh \<and> product_cell (sh ! i) = CStr product))
    \<and> (sheet w = sh \<longrightarrow>
         (\<exists>m. fresh_count (sheet (snd (detect_and_classify imread model clock image_path w)) ! i) = CInt m
            \<and> n \<le> m))"
proof (intro conjI impI)
  from sheet_after_count[OF assms]
  show "\<exists>m. fresh_count (sheet_after product is_fresh now sh ! i) = CInt m \<and> n \<le> m \<and> m \<le> n + 1
      \<and> product_cell (sheet_after product is_fresh now sh ! i) = product_cell (sh ! i)
      \<and> (n < m \<longrightarrow> is_fresh \<and> product_cell (sh ! i) = CStr product)" .
next
  assume w: "sheet w = sh"
  let ?P = "\<lambda>s :: sheet. i < length s \<and> (\<exists>m. fresh_count (s ! i) = CInt m \<and> n \<le> m)"
  have step: "\<And>p f t s. storable p \<Longrightarrow> ?P s \<Longrightarrow> ?P (sheet_after p f t s)"
  proof -
    fix p f t and s :: sheet assume "?P s"
    then obtain m where i: "i < length s" and m: "fresh_count (s ! i) = CInt m" and nm: "n \<le> m"
      by blast
    from sheet_after_count[OF i m, of p f t] obtain m' where
      "fresh_count (sheet_after p f t s ! i) = CInt m'" "m \<le> m'"
      by blast
    moreover from i sheet_after_length[of s p f t] have "i < length (sheet_after p f t s)" by simp
    ultimately show "?P (sheet_after p f t s)" using nm by auto
  qed
  from assms w have "?P (sheet w)" by simp
  from detect_and_classify_invariant[of ?P, OF step this]
  show "\<exists>m. fresh_count (sheet (snd (detect_and_classify imread model clock image_path w)) ! i) = CInt m
      \<and> n \<le> m"
    by blast
qed

theorem fresh_count_monotone_witness:
  "(\<exists>m. fresh_count (sheet_after ''apple'' True ''2024-05-02 08:00:00'' example_sheet ! 2) = CInt m
      \<and> 3 \<le> m \<and> m \<le> 3 + 1)
   \<and> (\<exists>m. fresh_count (sheet (snd (detect_and_classify decodable one_apple example_clock
                ''upload.jpg'' example_world)) ! 2) = CInt m
      \<and> 3 \<le> m)"
proof -
  have h1: "2 < length example_sheet" by (simp add: example_sheet_def)
  have h2: "fresh_count (example_sheet ! 2) = CInt 3" by (simp add: example_sheet_def)
  have w: "sheet example_world = example_sheet" by (simp add: example_world_def)
  note mono = fresh_count_monotone[OF h1 h2, of "''apple''" True "''2024-05-02 08:00:00''"
      example_world decodable one_apple example_clock "''upload.jpg''"]
  from mono have "\<exists>m. fresh_count (sheet_after ''apple'' True ''2024-05-02 08:00:00'' example_sheet ! 2) = CInt m
      \<and> 3 \<le> m \<and> m \<le> 3 + 1"
    by blast
  moreover from mono w have "\<exists>m. fresh_count (sheet (snd (detect_and_classify decodable one_apple
      example_clock ''upload.jpg'' example_world)) ! 2) = CInt m \<and> 3 \<le> m"
    by blast
  ultimately show ?thesis by blast
qed

text \<open>
  C6, as the code has it. On a sheet with its row 1, two calls in a row for the same
  product, both with \<open>is_fresh\<close> true, both return when the product has a row or is one
  that a cell stores as it is; afterwards the ledger row of the product has a Fresh Count
  2 above the count before the two calls (0 where the product had no row yet), and its
  Last Detected Time is the clock reading of the second call.
\<close>

theorem two_fresh_upserts:
  assumes "sh \<noteq> []"
    and "case ledger_row product sh of None \<Rightarrow> n = 0 | Some r \<Rightarrow> fresh_count r = CInt n"
    and "ledger_row product sh = None \<longrightarrow> storable product"
  shows "\<exists>sh2 r. upserts [(product, True, t1), (product, True, t2)] sh = Inr sh2
    \<and> ledger_row product sh2 = Some r
    \<and> fresh_count r = CInt (n + 2) \<and> last_detected_time r = CStr t2"
proof -
  from assms(1) obtain h rows where sh: "sh = h # rows" by (cases sh) auto
  let ?P = "\<lambda>r. product_cell r = CStr product"
  show ?thesis
  proof (cases "ledger_row product sh")
    case None
    with assms(2) have n: "n = 0" by simp
    from None sh have absent: "\<forall>r\<in>set rows. \<not> ?P r"
      by (auto simp: ledger_row_def find_None_iff)
    let ?r1 = "\<lparr>s_no = CInt (max_row sh), product_cell = CStr product,
        fresh_count = CInt 1, last_detected_time = CStr t1,
        life_span = lifespan_value product True\<rparr>"
    from None assms(3) have ok: "storable product" by simp
    from absent sh have "\<forall>r\<in>set (drop 1 sh). product_cell r \<noteq> CStr product" by simp
    from update_absent_storable[OF this ok, of True t1] sh
    have first: "update_fresh_count product True t1 sh = Inr (h # (rows @ [?r1]))" by simp
    have i: "length rows < length (rows @ [?r1])" by simp
    have at: "product_cell ((rows @ [?r1]) ! length rows) = CStr product" by simp
    have before: "\<forall>j<length rows. product_cell ((rows @ [?r1]) ! j) \<noteq> CStr product"
      using absent by (simp add: nth_append)
    let ?r2 = "?r1\<lparr>fresh_count := CInt 2, last_detected_time := CStr t2,
        life_span := lifespan_value product True\<rparr>"
    let ?rows2 = "(rows @ [?r1])[length rows := ?r2]"
    from update_first_match[OF i at before, of True t2 h]
    have second: "update_fresh_count product True t2 (h # (rows @ [?r1])) = Inr (h # ?rows2)"
      by simp
    have i2: "length rows < length ?rows2" by simp
    have at2: "product_cell (?rows2 ! length rows) = CStr product" by simp
    have before2: "\<forall>j<length rows. product_cell (?rows2 ! j) \<noteq> CStr product"
      using absent by (simp add: nth_append)
    from ledger_row_first_match[OF i2 at2 before2, of h]
    have "ledger_row product (h # ?rows2) = Some ?r2" by simp
    with first second sh n show ?thesis by simp
  next
    case (Some r)
    with assms(2) have cnt: "fresh_count r = CInt n" by simp
    from Some sh obtain i where i: "i < length rows" and at: "?P (rows ! i)"
      and r: "r = rows ! i" and before: "\<forall>j<i. \<not> ?P (rows ! j)"
      by (auto simp: ledger_row_def find_Some_iff)
    let ?r1 = "(rows ! i)\<lparr>fresh_count := CInt (n + 1), last_detected_time := CStr t1,
        life_span := lifespan_value product True\<rparr>"
    let ?rows1 = "rows[i := ?r1]"
    from update_first_match[OF i at before, of True t1 h] cnt r sh
    have first: "update_fresh_count product True t1 sh = Inr (h # ?rows1)" by simp
    have i1: "i < length ?rows1" using i by simp
    have at1: "product_cell (?rows1 ! i) = CStr product" using i at by simp
    have before1: "\<forall>j<i. product_cell (?rows1 ! j) \<noteq> CStr product"
      using before by simp
    let ?r2 = "?r1\<lparr>fresh_count := CInt (n + 2), last_detected_time := CStr t2,
        life_span := lifespan_value product True\<rparr>"
    let ?rows2 = "?rows1[i := ?r2]"
    from update_first_match[OF i1 at1 before1, of True t2 h] i
    have second: "update_fresh_count product True t2 (h # ?rows1) = Inr (h # ?rows2)"
      by (simp add: add.commute)
    have i2: "i < length ?rows2" using i by simp
    have at2: "product_cell (?rows2 ! i) = CStr product" using i at by simp
    have before2: "\<forall>j<i. product_cell (?rows2 ! j) \<noteq> CStr product"
      using before by simp
    from ledger_row_first_match[OF i2 at2 before2, of h] i
    have "ledger_row product (h # ?rows2) = Some ?r2" by simp
    with first second show ?thesis by simp
  qed
qed

theorem two_fresh_upserts_witness:
  "\<exists>sh2 r. upserts [(''apple'', True, ''2024-05-02 08:00:00''), (''apple'', True, ''2024-05-02 08:00:01'')]
        example_sheet = Inr sh2
     \<and> ledger_row ''apple'' sh2 = Some r
     \<and> fresh_count r = CInt (3 + 2) \<and> last_detected_time r = CStr ''2024-05-02 08:00:01''"
proof -
  have h1: "example_sheet \<noteq> []" by (simp add: example_sheet_def)
  have h2: "case ledger_row ''apple'' example_sheet of None \<Rightarrow> (3::int) = 0
            | Some r \<Rightarrow> fresh_count r = CInt 3"
    by (simp add: ledger_row_def example_sheet_def)
  have h3: "ledger_row ''apple'' example_sheet = None \<longrightarrow> storable ''apple''"
    by (simp add: ledger_row_def example_sheet_def)
  from two_fresh_upserts[OF h1 h2 h3] show ?thesis .
qed

text \<open>
  C6 for every product does not hold: two fresh calls for a product of 32768 characters
  on the header-only sheet both return and leave two rows of count 1, each with the first
  32767 characters in its Product cell, and no row of the product.
\<close>

theorem too_long_product_two_rows:
  "upserts [(too_long_product, True, ''2024-05-02 08:00:00''),
            (too_long_product, True, ''2024-05-02 08:00:01'')] new_sheet
     = Inr [header_row,
            \<lparr>s_no = CInt 1, product_cell = CStr long_product, fresh_count = CInt 1,
               last_detected_time = CStr ''2024-05-02 08:00:00'', life_span = CStr ''Unknown''\<rparr>,
            \<lparr>s_no = CInt 2, product_cell = CStr long_product, fresh_count = CInt 1,
               last_detected_time = CStr ''2024-05-02 08:00:01'', life_span = CStr ''Unknown''\<rparr>]
   \<and> ledger_row too_long_product
        [header_row,
         \<lparr>s_no = CInt 1, product_cell = CStr long_product, fresh_count = CInt 1,
            last_detected_time = CStr ''2024-05-02 08:00:00'', life_span = CStr ''Unknown''\<rparr>,
         \<lparr>s_no = CInt 2, product_cell = CStr long_product, fresh_count = CInt 1,
            last_detected_time = CStr ''2024-05-02 08:00:01'', life_span = CStr ''Unknown''\<rparr>]
       = None"
  by (simp add: update_fresh_count_def sheet_append_def check_string_too_long
      lifespan_too_long_product too_long_product_differs new_sheet_def max_row_def
      ledger_row_def)

text \<open>
  C10, as the code has it. From the sheet of a new workbook (the header alone) every
  sequence of calls for products that a cell stores as they are returns; the ledger rows
  then hold the distinct products of the calls in the order of their first appearance,
  and their S No cells are 1, 2, ..., n for the n distinct products. For every product,
  one call keeps the numbering of any numbered sheet, and a row it appends to a sheet
  with its row 1 gets as S No the number of rows (header included) before the append.
\<close>

theorem serial_numbers:
  "((\<forall>c\<in>set calls. storable (fst c)) \<longrightarrow>
      (\<exists>sh. upserts calls new_sheet = Inr sh
         \<and> map product_cell (drop 1 sh) = map CStr (first_seen [] (map fst calls))
         \<and> map s_no (drop 1 sh) = map CInt [1..int (card (set (map fst calls)))]))
   \<and> (numbered sh0 \<longrightarrow> numbered (sheet_after p f t sh0))
   \<and> (sh0 \<noteq> [] \<and> (\<forall>r\<in>set (drop 1 sh0). product_cell r \<noteq> CStr p) \<longrightarrow>
        map s_no (sheet_after p f t sh0) = map s_no sh0 @ [CInt (int (length sh0))])"
proof (intro conjI impI)
  assume ok: "\<forall>c\<in>set calls. storable (fst c)"
  have "map product_cell [] = map CStr []" "distinct ([] :: string list)"
    "list_all (\<lambda>r. is_int (fresh_count r)) []" "map s_no [] = map CInt [1..int (length ([] :: string list))]"
    by simp_all
  from upserts_run[OF this ok, of header_row]
  obtain rows' where run: "upserts calls new_sheet = Inr (header_row # rows')"
    and prods: "map product_cell rows' = map CStr (first_seen [] (map fst calls))"
    and nums: "map s_no rows' = map CInt [1..int (length (first_seen [] (map fst calls)))]"
    by (auto simp: new_sheet_def)
  have "length (first_seen [] (map fst calls)) = card (set (first_seen [] (map fst calls)))"
    by (simp add: distinct_card first_seen_distinct)
  also have "\<dots> = card (set (map fst calls))" by (simp add: first_seen_set)
  finally have "length (first_seen [] (map fst calls)) = card (set (map fst calls))" .
  with run prods nums
  show "\<exists>sh. upserts calls new_sheet = Inr sh
      \<and> map product_cell (drop 1 sh) = map CStr (first_seen [] (map fst calls))
      \<and> map s_no (drop 1 sh) = map CInt [1..int (card (set (map fst calls)))]"
    by simp
next
  assume "numbered sh0"
  then show "numbered (sheet_after p f t sh0)" by (rule numbered_kept)
next
  assume a: "sh0 \<noteq> [] \<and> (\<forall>r\<in>set (drop 1 sh0). product_cell r \<noteq> CStr p)"
  then have "\<forall>r\<in>set (drop 1 sh0). product_cell r \<noteq> CStr p" by simp
  from update_absent[OF this, of f t] a
  show "map s_no (sheet_after p f t sh0) = map s_no sh0 @ [CInt (int (length sh0))]"
    by (simp add: sheet_after_def sheet_append_def max_row_def half_row_def split: sum.splits)
qed

theorem serial_numbers_witness:
  "(\<exists>sh. upserts [(''apple'', True, ''2024-05-02 08:00:00''),
                   (''onion'', False, ''2024-05-02 08:00:01''),
                   (''apple'', True, ''2024-05-02 08:00:02'')] new_sheet = Inr sh
      \<and> map product_cell (drop 1 sh) = [CStr ''apple'', CStr ''onion'']
      \<and> map s_no (drop 1 sh) = [CInt 1, CInt 2])
   \<and> numbered example_sheet
   \<and> numbered (sheet_after ''mango'' False ''2024-05-02 08:00:00'' example_sheet)
   \<and> map s_no (sheet_after ''mango'' False ''2024-05-02 08:00:00'' example_sheet)
       = map s_no example_sheet @ [CInt 3]"
proof -
  let ?calls = "[(''apple'', True, ''2024-05-02 08:00:00''),
                 (''onion'', False, ''2024-05-02 08:00:01''),
                 (''apple'', True, ''2024-05-02 08:00:02'')]"
  have h0: "\<forall>c\<in>set ?calls. storable (fst c)"
    by (simp add: storable_def max_string_length_def illegal_character_def)
  have seen: "first_seen [] (map fst ?calls) = [''apple'', ''onion'']" by simp
  have "set (map fst ?calls) = {''apple'', ''onion''}" by auto
  then have n: "card (set (map fst ?calls)) = 2" by simp
  have upto: "[1..int 2] = [1, 2]" by (simp add: upto_rec1)
  have h1: "numbered example_sheet"
    by (simp add: numbered_def example_sheet_def upto_rec1)
  have h2: "example_sheet \<noteq> [] \<and> (\<forall>r\<in>set (drop 1 example_sheet). product_cell r \<noteq> CStr ''mango'')"
    by (simp add: example_sheet_def)
  have len: "int (length example_sheet) = 3" by (simp add: example_sheet_def)
  note inst = serial_numbers[of ?calls example_sheet "''mango''" False "''2024-05-02 08:00:00''"]
  from inst[THEN conjunct1, THEN mp, OF h0]
  have "\<exists>sh. upserts ?calls new_sheet = Inr sh
      \<and> map product_cell (drop 1 sh) = [CStr ''apple'', CStr ''onion'']
      \<and> map s_no (drop 1 sh) = [CInt 1, CInt 2]"
    unfolding seen n upto by simp
  moreover from inst[THEN conjunct2] h1 h2 len
  have "numbered (sheet_after ''mango'' False ''2024-05-02 08:00:00'' example_sheet)
      \<and> map s_no (sheet_after ''mango'' False ''2024-05-02 08:00:00'' example_sheet)
          = map s_no example_sheet @ [CInt 3]"
    by simp
  ultimately show ?thesis using h1 by (intro conjI) simp_all
qed

text \<open>
  C10 for every product does not hold: two calls for one product of 32768 characters on
  the header-only sheet leave two rows, numbered 1 and 2, for the one distinct product.
\<close>

theorem too_long_product_numbered_twice:
  "upserts [(too_long_product, False, ''2024-05-02 08:00:00''),
            (too_long_product, False, ''2024-05-02 08:00:01'')] new_sheet
     = Inr [header_row,
            \<lparr>s_no = CInt 1, product_cell = CStr long_product, fresh_count = CInt 0,
               last_detected_time = CStr ''2024-05-02 08:00:00'', life_span = CStr ''N/A''\<rparr>,
            \<lparr>s_no = CInt 2, product_cell = CStr long_product, fresh_count = CInt 0,
               last_detected_time = CStr ''2024-05-02 08:00:01'', life_span = CStr ''N/A''\<rparr>]
   \<and> card (set (map fst [(too_long_product, False, ''2024-05-02 08:00:00''),
                           (too_long_product, False, ''2024-05-02 08:00:01'')])) = 1"
  by (simp add: update_fresh_count_def sheet_append_def check_string_too_long
      lifespan_too_long_product too_long_product_differs new_sheet_def max_row_def)

section \<open>Properties of the detection interpreter\<close>

text \<open>
  C8. When the image cannot be decoded (\<open>cv2.imread\<close> gives \<open>None\<close>), the call returns
  \<open>None\<close>, so no record; the worksheet is exactly as before, no clock has been read, and
  the one thing done is the message handed to \<open>st.error\<close>.
\<close>

theorem undecodable_image:
  assumes "imread image_path = None"
  shows "detect_and_classify imread model clock image_path w
     = (Inr None, w\<lparr>st_errors := st_errors w @ [''Error: Image not found.'']\<rparr>)
    \<and> sheet (snd (detect_and_classify imread model clock image_path w)) = sheet w
    \<and> now_calls (snd (detect_and_classify imread model clock image_path w)) = now_calls w"
  using assms by (simp add: detect_and_classify_def)

theorem undecodable_image_witness:
  "detect_and_classify undecodable one_apple example_clock ''upload.jpg'' fresh_world
     = (Inr None, fresh_world\<lparr>st_errors := st_errors fresh_world @ [''Error: Image not found.'']\<rparr>)
   \<and> sheet (snd (detect_and_classify undecodable one_apple example_clock ''upload.jpg'' fresh_world))
     = new_sheet"
proof -
  have h: "undecodable ''upload.jpg'' = None" by (simp add: undecodable_def)
  from undecodable_image[of undecodable "''upload.jpg''" one_apple example_clock fresh_world, OF h]
  show ?thesis by (simp add: fresh_world_def)
qed

text \<open>
  C3. Detections below \<open>CONFIDENCE_THRESHOLD\<close> (0.5) leave no trace: the call gives the same
  records and the same world as on the model output with them removed, and when every
  detection is below the threshold it returns no record and leaves the world as it was.
  The filter drops nothing else: on a ledger with integer counts, when the detections
  at or above the threshold have class indices of the table, the call returns one record
  for each of them and has made one ledger update for each.
\<close>

theorem confidence_filter:
  "CONFIDENCE_THRESHOLD = 1 / 2
   \<and> detect_and_classify imread model clock image_path w
     = detect_and_classify imread (\<lambda>img. map (filter (\<lambda>b. CONFIDENCE_THRESHOLD \<le> conf b)) (model img))
         clock image_path w
   \<and> (imread image_path = Some img \<and> (\<forall>b\<in>set (concat (model img)). conf b < CONFIDENCE_THRESHOLD)
        \<longrightarrow> detect_and_classify imread model clock image_path w = (Inr (Some []), w))
   \<and> (imread image_path = Some img \<and> counts_are_ints (sheet w)
        \<and> (\<forall>b\<in>set (concat (model img)). CONFIDENCE_THRESHOLD \<le> conf b \<longrightarrow> - 8 \<le> cls b \<and> cls b < 8)
        \<longrightarrow> (\<exists>predictions w'.
              detect_and_classify imread model clock image_path w = (Inr (Some predictions), w')
              \<and> length predictions
                  = length (filter (\<lambda>b. CONFIDENCE_THRESHOLD \<le> conf b) (concat (model img)))
              \<and> now_calls w' = now_calls w + length predictions))"
proof (intro conjI impI)
  show "CONFIDENCE_THRESHOLD = 1 / 2" by (simp add: CONFIDENCE_THRESHOLD_def)
next
  show "detect_and_classify imread model clock image_path w
     = detect_and_classify imread (\<lambda>img. map (filter (\<lambda>b. CONFIDENCE_THRESHOLD \<le> conf b)) (model img))
         clock image_path w"
    by (simp add: detect_and_classify_def results_loop_filter split: option.splits)
next
  assume "imread image_path = Some img \<and> (\<forall>b\<in>set (concat (model img)). conf b < CONFIDENCE_THRESHOLD)"
  then have dec: "imread image_path = Some img"
    and low: "\<forall>b\<in>set (concat (model img)). conf b < CONFIDENCE_THRESHOLD"
    by simp_all
  from results_loop_all_below[OF low, of clock "[]" w] dec
  show "detect_and_classify imread model clock image_path w = (Inr (Some []), w)"
    by (simp add: detect_and_classify_def)
next
  assume a: "imread image_path = Some img \<and> counts_are_ints (sheet w)
        \<and> (\<forall>b\<in>set (concat (model img)). CONFIDENCE_THRESHOLD \<le> conf b \<longrightarrow> - 8 \<le> cls b \<and> cls b < 8)"
  then have dec: "imread image_path = Some img" and ints: "counts_are_ints (sheet w)"
    and cl: "\<forall>b\<in>set (concat (model img)). CONFIDENCE_THRESHOLD \<le> conf b \<longrightarrow> - 8 \<le> cls b \<and> cls b < 8"
    by simp_all
  from results_loop_returns[OF ints cl, of clock "[]"] dec
  show "\<exists>predictions w'.
      detect_and_classify imread model clock image_path w = (Inr (Some predictions), w')
      \<and> length predictions
          = length (filter (\<lambda>b. CONFIDENCE_THRESHOLD \<le> conf b) (concat (model img)))
      \<and> now_calls w' = now_calls w + length predictions"
    by (auto simp: detect_and_classify_def)
qed

theorem confidence_filter_witness:
  "detect_and_classify decodable one_faint example_clock ''upload.jpg'' fresh_world
     = (Inr (Some []), fresh_world)
   \<and> (\<exists>predictions w'.
        detect_and_classify decodable one_apple example_clock ''upload.jpg'' fresh_world
          = (Inr (Some predictions), w')
        \<and> length predictions = 1 \<and> now_calls w' = 1)"
proof -
  have dec: "decodable ''upload.jpg'' = Some ()" by (simp add: decodable_def)
  have low: "\<forall>b\<in>set (concat (one_faint ())). conf b < CONFIDENCE_THRESHOLD"
    by (simp add: one_faint_def CONFIDENCE_THRESHOLD_def)
  have ints: "counts_are_ints (sheet fresh_world)"
    by (simp add: fresh_world_def new_sheet_def counts_are_ints_def)
  have cl: "\<forall>b\<in>set (concat (one_apple ())). CONFIDENCE_THRESHOLD \<le> conf b \<longrightarrow> - 8 \<le> cls b \<and> cls b < 8"
    by (simp add: one_apple_def)
  have n: "length (filter (\<lambda>b. CONFIDENCE_THRESHOLD \<le> conf b) (concat (one_apple ()))) = 1"
    by (simp add: one_apple_def CONFIDENCE_THRESHOLD_def)
  have calls: "now_calls fresh_world = 0" by (simp add: fresh_world_def)
  from confidence_filter[of decodable one_faint example_clock "''upload.jpg''" fresh_world "()"] dec low
  have first: "detect_and_classify decodable one_faint example_clock ''upload.jpg'' fresh_world
     = (Inr (Some []), fresh_world)"
    by blast
  from confidence_filter[of decodable one_apple example_clock "''upload.jpg''" fresh_world "()"] dec ints cl
  have "\<exists>predictions w'.
      detect_and_classify decodable one_apple example_clock ''upload.jpg'' fresh_world
        = (Inr (Some predictions), w')
      \<and> length predictions
          = length (filter (\<lambda>b. CONFIDENCE_THRESHOLD \<le> conf b) (concat (one_apple ())))
      \<and> now_calls w' = now_calls fresh_world + length predictions"
    by blast
  with n calls have "\<exists>predictions w'.
      detect_and_classify decodable one_apple example_clock ''upload.jpg'' fresh_world
        = (Inr (Some predictions), w')
      \<and> length predictions = 1 \<and> now_calls w' = 1"
    by auto
  with first show ?thesis by blast
qed

text \<open>
  C4. The label of every class index, split at the underscore, is the product and the
  freshness the table gives: indices 0 to 7 in table order (a negative index from -8 on
  reads the table from its end, any other index raises \<open>IndexError\<close>), and the pairs spell
  the labels of \<open>label_encoder\<close>. The interpreter uses the label of each detection's own
  class index: for a decodable image whose detections at or above the threshold have
  class indices of the table, the calls of the ledger upsert are those of their products
  and freshness in order, and the records returned are their capitalized products and
  freshness with their confidences; for one detection of class index \<open>i\<close> the call is the
  one upsert for its product. For one detection of class index 0 and a confidence from
  0.895 to 0.905 (0.9 as a float of either width), the call makes the one upsert for
  \<open>apple\<close> with \<open>is_fresh\<close> true and, when that returns, returns the one record Apple, Fresh,
  0.90; the row of \<open>apple\<close> then has Expected Life Span 7, and from the header-only sheet
  it is the row 1, apple, 1, the clock reading, 7.
\<close>

theorem labels_and_apple_scenario:
  "interpret_label i =
     (if - 8 \<le> i \<and> i < 8 then Inr (label_pairs ! nat (i mod 8)) else Inl IndexError)
   \<and> map (\<lambda>(product, freshness). product @ ''_'' @ freshness) label_pairs = label_encoder
   \<and> map (\<lambda>(product, freshness). (capitalize product, capitalize freshness)) label_pairs =
       [(''Apple'', ''Fresh''), (''Apple'', ''Stale''), (''Onion'', ''Fresh''), (''Onion'', ''Stale''),
        (''Carrot'', ''Fresh''), (''Carrot'', ''Stale''), (''Tomato'', ''Fresh''),
        (''Tomato'', ''Stale'')]
   \<and> (imread image_path = Some img
        \<and> (\<forall>b\<in>set (kept (model img)). - 8 \<le> cls b \<and> cls b < 8) \<longrightarrow>
        detect_and_classify imread model clock image_path w =
          (case upsert_each clock
                  (map (\<lambda>b. (fst (label_pairs ! nat (cls b mod 8)),
                              snd (label_pairs ! nat (cls b mod 8)) = ''fresh''))
                     (kept (model img))) w of
             (Some e, w') \<Rightarrow> (Inl e, w')
           | (None, w') \<Rightarrow>
               (Inr (Some (map (\<lambda>b. \<lparr>Product = capitalize (fst (label_pairs ! nat (cls b mod 8))),
                                       Freshness = capitalize (snd (label_pairs ! nat (cls b mod 8))),
                                       Confidence = format_2f (conf b)\<rparr>)
                             (kept (model img)))), w')))
   \<and> (imread image_path = Some img \<and> model img = [[\<lparr>conf = c, cls = i\<rparr>]]
        \<and> CONFIDENCE_THRESHOLD \<le> c \<and> - 8 \<le> i \<and> i < 8 \<longrightarrow>
        detect_and_classify imread model clock image_path w =
          (case update_fresh_count (fst (label_pairs ! nat (i mod 8)))
                  (snd (label_pairs ! nat (i mod 8)) = ''fresh'') (clock (now_calls w)) (sheet w) of
             Inl (e, sh') \<Rightarrow>
               (Inl e, w\<lparr>sheet := sh',
                          now_calls := (if e = TypeError then now_calls w else Suc (now_calls w))\<rparr>)
           | Inr sh' \<Rightarrow>
               (Inr (Some [\<lparr>Product = capitalize (fst (label_pairs ! nat (i mod 8))),
                             Freshness = capitalize (snd (label_pairs ! nat (i mod 8))),
                             Confidence = format_2f c\<rparr>]),
                w\<lparr>sheet := sh', now_calls := Suc (now_calls w)\<rparr>)))
   \<and> (imread image_path = Some img \<and> model img = [[\<lparr>conf = c, cls = 0\<rparr>]]
        \<and> 179 / 200 \<le> c \<and> c \<le> 181 / 200 \<longrightarrow>
        detect_and_classify imread model clock image_path w =
          (case update_fresh_count ''apple'' True (clock (now_calls w)) (sheet w) of
             Inl (e, sh') \<Rightarrow>
               (Inl e, w\<lparr>sheet := sh',
                          now_calls := (if e = TypeError then now_calls w else Suc (now_calls w))\<rparr>)
           | Inr sh' \<Rightarrow>
               (Inr (Some [\<lparr>Product = ''Apple'', Freshness = ''Fresh'', Confidence = ''0.90''\<rparr>]),
                w\<lparr>sheet := sh', now_calls := Suc (now_calls w)\<rparr>))
        \<and> (\<forall>sh'. sheet w \<noteq> []
              \<and> update_fresh_count ''apple'' True (clock (now_calls w)) (sheet w) = Inr sh' \<longrightarrow>
              (\<exists>r. ledger_row ''apple'' sh' = Some r \<and> life_span r = CInt 7
                 \<and> last_detected_time r = CStr (clock (now_calls w))))
        \<and> (sheet w = new_sheet \<longrightarrow>
              detect_and_classify imread model clock image_path w =
                (Inr (Some [\<lparr>Product = ''Apple'', Freshness = ''Fresh'', Confidence = ''0.90''\<rparr>]),
                 w\<lparr>sheet := [header_row,
                              \<lparr>s_no = CInt 1, product_cell = CStr ''apple'', fresh_count = CInt 1,
                                 last_detected_time = CStr (clock (now_calls w)),
                                 life_span = CInt 7\<rparr>],
                    now_calls := Suc (now_calls w)\<rparr>)))"
proof (intro conjI impI)
  show "interpret_label i =
     (if - 8 \<le> i \<and> i < 8 then Inr (label_pairs ! nat (i mod 8)) else Inl IndexError)"
  proof (cases "- 8 \<le> i \<and> i < 8")
    case True
    then have "- 8 \<le> i" "i < 8" by simp_all
    from interpret_label_in_range[OF this] True show ?thesis by simp
  next
    case False
    then have "i < - 8 \<or> 8 \<le> i" by arith
    from interpret_label_out_of_range[OF this] False show ?thesis by simp
  qed
next
  show "map (\<lambda>(product, freshness). product @ ''_'' @ freshness) label_pairs = label_encoder"
    by (rule label_pairs_spell)
next
  show "map (\<lambda>(product, freshness). (capitalize product, capitalize freshness)) label_pairs =
       [(''Apple'', ''Fresh''), (''Apple'', ''Stale''), (''Onion'', ''Fresh''), (''Onion'', ''Stale''),
        (''Carrot'', ''Fresh''), (''Carrot'', ''Stale''), (''Tomato'', ''Fresh''),
        (''Tomato'', ''Stale'')]"
    by (rule label_pairs_capitalized)
next
  assume "imread image_path = Some img
        \<and> (\<forall>b\<in>set (kept (model img)). - 8 \<le> cls b \<and> cls b < 8)"
  then have dec: "imread image_path = Some img"
    and rng: "\<forall>b\<in>set (kept (model img)). - 8 \<le> cls b \<and> cls b < 8"
    by simp_all
  from all_detections[of imread image_path img model, OF dec rng]
  show "detect_and_classify imread model clock image_path w =
          (case upsert_each clock
                  (map (\<lambda>b. (fst (label_pairs ! nat (cls b mod 8)),
                              snd (label_pairs ! nat (cls b mod 8)) = ''fresh''))
                     (kept (model img))) w of
             (Some e, w') \<Rightarrow> (Inl e, w')
           | (None, w') \<Rightarrow>
               (Inr (Some (map (\<lambda>b. \<lparr>Product = capitalize (fst (label_pairs ! nat (cls b mod 8))),
                                       Freshness = capitalize (snd (label_pairs ! nat (cls b mod 8))),
                                       Confidence = format_2f (conf b)\<rparr>)
                             (kept (model img)))), w'))" .
next
  assume "imread image_path = Some img \<and> model img = [[\<lparr>conf = c, cls = i\<rparr>]]
        \<and> CONFIDENCE_THRESHOLD \<le> c \<and> - 8 \<le> i \<and> i < 8"
  then have dec: "imread image_path = Some img" and out: "model img = [[\<lparr>conf = c, cls = i\<rparr>]]"
    and keep: "CONFIDENCE_THRESHOLD \<le> c" and rng: "- 8 \<le> i" "i < 8"
    by simp_all
  from interpret_label_in_range[OF rng]
  have lab: "interpret_label i
      = Inr (fst (label_pairs ! nat (i mod 8)), snd (label_pairs ! nat (i mod 8)))"
    by simp
  from single_detection[of imread image_path img model, OF dec out keep lab]
  show "detect_and_classify imread model clock image_path w =
          (case update_fresh_count (fst (label_pairs ! nat (i mod 8)))
                  (snd (label_pairs ! nat (i mod 8)) = ''fresh'') (clock (now_calls w)) (sheet w) of
             Inl (e, sh') \<Rightarrow>
               (Inl e, w\<lparr>sheet := sh',
                          now_calls := (if e = TypeError then now_calls w else Suc (now_calls w))\<rparr>)
           | Inr sh' \<Rightarrow>
               (Inr (Some [\<lparr>Product = capitalize (fst (label_pairs ! nat (i mod 8))),
                             Freshness = capitalize (snd (label_pairs ! nat (i mod 8))),
                             Confidence = format_2f c\<rparr>]),
                w\<lparr>sheet := sh', now_calls := Suc (now_calls w)\<rparr>))" .
next
  assume a: "imread image_path = Some img \<and> model img = [[\<lparr>conf = c, cls = 0\<rparr>]]
        \<and> 179 / 200 \<le> c \<and> c \<le> 181 / 200"
  then have dec: "imread image_path = Some img" and out: "model img = [[\<lparr>conf = c, cls = 0\<rparr>]]"
    and lo: "179 / 200 \<le> c" and hi: "c \<le> 181 / 200"
    by simp_all
  have keep: "CONFIDENCE_THRESHOLD \<le> c" using lo by (simp add: CONFIDENCE_THRESHOLD_def)
  have lab: "interpret_label 0 = Inr (''apple'', ''fresh'')"
    using interpret_label_in_range[of 0] by (simp add: label_pairs_def)
  have fmt: "format_2f c = ''0.90''" using lo hi by (rule format_2f_090)
  have life: "lifespan_value ''apple'' True = CInt 7"
    by (simp add: lifespan_value_def expected_life_span_def)
  have ok: "storable ''apple''"
    by (simp add: storable_def max_string_length_def illegal_character_def)
  from single_detection[of imread image_path img model, OF dec out keep lab, of clock w,
      unfolded capitalize_words fmt]
  show run: "detect_and_classify imread model clock image_path w =
          (case update_fresh_count ''apple'' True (clock (now_calls w)) (sheet w) of
             Inl (e, sh') \<Rightarrow>
               (Inl e, w\<lparr>sheet := sh',
                          now_calls := (if e = TypeError then now_calls w else Suc (now_calls w))\<rparr>)
           | Inr sh' \<Rightarrow>
               (Inr (Some [\<lparr>Product = ''Apple'', Freshness = ''Fresh'', Confidence = ''0.90''\<rparr>]),
                w\<lparr>sheet := sh', now_calls := Suc (now_calls w)\<rparr>))"
    by simp
  have short: "length ''apple'' \<le> max_string_length" by (simp add: max_string_length_def)
  show "\<forall>sh'. sheet w \<noteq> []
              \<and> update_fresh_count ''apple'' True (clock (now_calls w)) (sheet w) = Inr sh' \<longrightarrow>
              (\<exists>r. ledger_row ''apple'' sh' = Some r \<and> life_span r = CInt 7
                 \<and> last_detected_time r = CStr (clock (now_calls w)))"
    using ledger_row_after_update[of "sheet w" "''apple''" True "clock (now_calls w)", OF _ _ short] life
    by auto
  {
    assume new: "sheet w = new_sheet"
    have "update_fresh_count ''apple'' True (clock (now_calls w)) new_sheet =
        Inr [header_row,
             \<lparr>s_no = CInt 1, product_cell = CStr ''apple'', fresh_count = CInt 1,
                last_detected_time = CStr (clock (now_calls w)), life_span = CInt 7\<rparr>]"
      using update_absent_storable[of new_sheet "''apple''", OF _ ok, of True "clock (now_calls w)"] life
      by (simp add: new_sheet_def max_row_def)
    with run new
    show "detect_and_classify imread model clock image_path w =
                (Inr (Some [\<lparr>Product = ''Apple'', Freshness = ''Fresh'', Confidence = ''0.90''\<rparr>]),
                 w\<lparr>sheet := [header_row,
                              \<lparr>s_no = CInt 1, product_cell = CStr ''apple'', fresh_count = CInt 1,
                                 last_detected_time = CStr (clock (now_calls w)),
                                 life_span = CInt 7\<rparr>],
                    now_calls := Suc (now_calls w)\<rparr>)"
      by simp
  }
qed

theorem labels_and_apple_scenario_witness:
  "interpret_label 6 = Inr (''tomato'', ''fresh'')
   \<and> detect_and_classify decodable apple_faint_onion example_clock ''upload.jpg'' fresh_world =
       (Inr (Some [\<lparr>Product = ''Apple'', Freshness = ''Fresh'', Confidence = ''0.90''\<rparr>,
                   \<lparr>Product = ''Onion'', Freshness = ''Stale'', Confidence = ''0.75''\<rparr>]),
        \<lparr>sheet = [header_row,
                  \<lparr>s_no = CInt 1, product_cell = CStr ''apple'', fresh_count = CInt 1,
                     last_detected_time = CStr ''2024-05-02 08:00:00'', life_span = CInt 7\<rparr>,
                  \<lparr>s_no = CInt 2, product_cell = CStr ''onion'', fresh_count = CInt 0,
                     last_detected_time = CStr ''2024-05-02 08:00:01'', life_span = CStr ''N/A''\<rparr>],
           st_errors = [], now_calls = 2\<rparr>)
   \<and> detect_and_classify decodable one_stale_onion example_clock ''upload.jpg'' fresh_world =
       (Inr (Some [\<lparr>Product = ''Onion'', Freshness = ''Stale'', Confidence = ''0.75''\<rparr>]),
        \<lparr>sheet = [header_row,
                  \<lparr>s_no = CInt 1, product_cell = CStr ''onion'', fresh_count = CInt 0,
                     last_detected_time = CStr ''2024-05-02 08:00:00'', life_span = CStr ''N/A''\<rparr>],
           st_errors = [], now_calls = 1\<rparr>)
   \<and> detect_and_classify decodable one_apple example_clock ''upload.jpg'' fresh_world =
       (Inr (Some [\<lparr>Product = ''Apple'', Freshness = ''Fresh'', Confidence = ''0.90''\<rparr>]),
        \<lparr>sheet = [header_row,
                  \<lparr>s_no = CInt 1, product_cell = CStr ''apple'', fresh_count = CInt 1,
                     last_detected_time = CStr ''2024-05-02 08:00:00'', life_span = CInt 7\<rparr>],
           st_errors = [], now_calls = 1\<rparr>)
   \<and> (\<exists>r. ledger_row ''apple''
           [header_row,
            \<lparr>s_no = CInt 1, product_cell = CStr ''apple'', fresh_count = CInt 1,
               last_detected_time = CStr ''2024-05-02 08:00:00'', life_span = CInt 7\<rparr>] = Some r
         \<and> life_span r = CInt 7 \<and> last_detected_time r = CStr ''2024-05-02 08:00:00'')"
proof -
  have dec: "decodable ''upload.jpg'' = Some ()" by (simp add: decodable_def)
  have t: "example_clock (now_calls fresh_world) = ''2024-05-02 08:00:00''"
    by (simp add: fresh_world_def example_clock_readings)
  have new: "sheet fresh_world = new_sheet" by (simp add: fresh_world_def)
  have "interpret_label 6 = Inr (''tomato'', ''fresh'')"
    using labels_and_apple_scenario[of 6, THEN conjunct1] by (simp add: label_pairs_def)
  moreover
  have hA: "decodable ''upload.jpg'' = Some ()
      \<and> (\<forall>b\<in>set (kept (apple_faint_onion ())). - 8 \<le> cls b \<and> cls b < 8)"
    by (simp add: decodable_def kept_def apple_faint_onion_def CONFIDENCE_THRESHOLD_def)
  have rhsA: "(case upsert_each example_clock
                  (map (\<lambda>b. (fst (label_pairs ! nat (cls b mod 8)),
                              snd (label_pairs ! nat (cls b mod 8)) = ''fresh''))
                     (kept (apple_faint_onion ()))) fresh_world of
             (Some e, w') \<Rightarrow> (Inl e, w')
           | (None, w') \<Rightarrow>
               (Inr (Some (map (\<lambda>b. \<lparr>Product = capitalize (fst (label_pairs ! nat (cls b mod 8))),
                                       Freshness = capitalize (snd (label_pairs ! nat (cls b mod 8))),
                                       Confidence = format_2f (conf b)\<rparr>)
                             (kept (apple_faint_onion ())))), w'))
      = (Inr (Some [\<lparr>Product = ''Apple'', Freshness = ''Fresh'', Confidence = ''0.90''\<rparr>,
                   \<lparr>Product = ''Onion'', Freshness = ''Stale'', Confidence = ''0.75''\<rparr>]),
        \<lparr>sheet = [header_row,
                  \<lparr>s_no = CInt 1, product_cell = CStr ''apple'', fresh_count = CInt 1,
                     last_detected_time = CStr ''2024-05-02 08:00:00'', life_span = CInt 7\<rparr>,
                  \<lparr>s_no = CInt 2, product_cell = CStr ''onion'', fresh_count = CInt 0,
                     last_detected_time = CStr ''2024-05-02 08:00:01'', life_span = CStr ''N/A''\<rparr>],
           st_errors = [], now_calls = 2\<rparr>)"
    by (simp add: kept_def apple_faint_onion_def one_stale_onion_def CONFIDENCE_THRESHOLD_def
        label_pairs_def call_update_fresh_count_def update_fresh_count_def sheet_append_def
        check_string_examples lifespan_examples fresh_world_def new_sheet_def max_row_def
        capitalize_words capitalize_onion format_2f_examples example_clock_readings
        del: capitalize.simps)
  note labels_and_apple_scenario[of 0 decodable "''upload.jpg''" "()" apple_faint_onion
      example_clock fresh_world, THEN conjunct2, THEN conjunct2, THEN conjunct2, THEN conjunct1,
      THEN mp, OF hA]
  from this rhsA
  have "detect_and_classify decodable apple_faint_onion example_clock ''upload.jpg'' fresh_world =
       (Inr (Some [\<lparr>Product = ''Apple'', Freshness = ''Fresh'', Confidence = ''0.90''\<rparr>,
                   \<lparr>Product = ''Onion'', Freshness = ''Stale'', Confidence = ''0.75''\<rparr>]),
        \<lparr>sheet = [header_row,
                  \<lparr>s_no = CInt 1, product_cell = CStr ''apple'', fresh_count = CInt 1,
                     last_detected_time = CStr ''2024-05-02 08:00:00'', life_span = CInt 7\<rparr>,
                  \<lparr>s_no = CInt 2, product_cell = CStr ''onion'', fresh_count = CInt 0,
                     last_detected_time = CStr ''2024-05-02 08:00:01'', life_span = CStr ''N/A''\<rparr>],
           st_errors = [], now_calls = 2\<rparr>)"
    by (rule trans)
  moreover
  have hB: "decodable ''upload.jpg'' = Some () \<and> one_stale_onion () = [[\<lparr>conf = 3 / 4, cls = 3\<rparr>]]
      \<and> CONFIDENCE_THRESHOLD \<le> 3 / 4 \<and> - 8 \<le> (3::int) \<and> (3::int) < 8"
    by (simp add: decodable_def one_stale_onion_def CONFIDENCE_THRESHOLD_def)
  have rhsB: "(case update_fresh_count (fst (label_pairs ! nat (3 mod 8)))
                  (snd (label_pairs ! nat (3 mod 8)) = ''fresh'')
                  (example_clock (now_calls fresh_world)) (sheet fresh_world) of
             Inl (e, sh') \<Rightarrow>
               (Inl e, fresh_world\<lparr>sheet := sh',
                          now_calls := (if e = TypeError then now_calls fresh_world
                                        else Suc (now_calls fresh_world))\<rparr>)
           | Inr sh' \<Rightarrow>
               (Inr (Some [\<lparr>Product = capitalize (fst (label_pairs ! nat (3 mod 8))),
                             Freshness = capitalize (snd (label_pairs ! nat (3 mod 8))),
                             Confidence = format_2f (3 / 4)\<rparr>]),
                fresh_world\<lparr>sheet := sh', now_calls := Suc (now_calls fresh_world)\<rparr>))
      = (Inr (Some [\<lparr>Product = ''Onion'', Freshness = ''Stale'', Confidence = ''0.75''\<rparr>]),
        \<lparr>sheet = [header_row,
                  \<lparr>s_no = CInt 1, product_cell = CStr ''onion'', fresh_count = CInt 0,
                     last_detected_time = CStr ''2024-05-02 08:00:00'', life_span = CStr ''N/A''\<rparr>],
           st_errors = [], now_calls = 1\<rparr>)"
    by (simp add: kept_def apple_faint_onion_def one_stale_onion_def CONFIDENCE_THRESHOLD_def
        label_pairs_def call_update_fresh_count_def update_fresh_count_def sheet_append_def
        check_string_examples lifespan_examples fresh_world_def new_sheet_def max_row_def
        capitalize_words capitalize_onion format_2f_examples example_clock_readings
        del: capitalize.simps)
  note labels_and_apple_scenario[of 3 decodable "''upload.jpg''" "()" one_stale_onion
      example_clock fresh_world "3 / 4", THEN conjunct2, THEN conjunct2, THEN conjunct2,
      THEN conjunct2, THEN conjunct1, THEN mp, OF hB]
  from this rhsB
  have "detect_and_classify decodable one_stale_onion example_clock ''upload.jpg'' fresh_world =
       (Inr (Some [\<lparr>Product = ''Onion'', Freshness = ''Stale'', Confidence = ''0.75''\<rparr>]),
        \<lparr>sheet = [header_row,
                  \<lparr>s_no = CInt 1, product_cell = CStr ''onion'', fresh_count = CInt 0,
                     last_detected_time = CStr ''2024-05-02 08:00:00'', life_span = CStr ''N/A''\<rparr>],
           st_errors = [], now_calls = 1\<rparr>)"
    by (rule trans)
  moreover
  have hC: "decodable ''upload.jpg'' = Some () \<and> one_apple () = [[\<lparr>conf = 9 / 10, cls = 0\<rparr>]]
      \<and> (179 / 200 :: rat) \<le> 9 / 10 \<and> (9 / 10 :: rat) \<le> 181 / 200"
    by (simp add: decodable_def one_apple_def)
  have up: "sheet fresh_world \<noteq> []
      \<and> update_fresh_count ''apple'' True (example_clock (now_calls fresh_world)) (sheet fresh_world)
        = Inr [header_row,
               \<lparr>s_no = CInt 1, product_cell = CStr ''apple'', fresh_count = CInt 1,
                  last_detected_time = CStr ''2024-05-02 08:00:00'', life_span = CInt 7\<rparr>]"
    unfolding t
    by (simp add: update_fresh_count_def sheet_append_def check_string_examples
        lifespan_examples fresh_world_def new_sheet_def max_row_def)
  note scenario = labels_and_apple_scenario[of 0 decodable "''upload.jpg''" "()" one_apple
      example_clock fresh_world "9 / 10", THEN conjunct2, THEN conjunct2, THEN conjunct2,
      THEN conjunct2, THEN conjunct2, THEN mp, OF hC]
  have "detect_and_classify decodable one_apple example_clock ''upload.jpg'' fresh_world =
       (Inr (Some [\<lparr>Product = ''Apple'', Freshness = ''Fresh'', Confidence = ''0.90''\<rparr>]),
        \<lparr>sheet = [header_row,
                  \<lparr>s_no = CInt 1, product_cell = CStr ''apple'', fresh_count = CInt 1,
                     last_detected_time = CStr ''2024-05-02 08:00:00'', life_span = CInt 7\<rparr>],
           st_errors = [], now_calls = 1\<rparr>)"
    using scenario[THEN conjunct2, THEN conjunct2, THEN mp, OF new] unfolding t
    by (simp add: fresh_world_def)
  moreover have "\<exists>r. ledger_row ''apple''
           [header_row,
            \<lparr>s_no = CInt 1, product_cell = CStr ''apple'', fresh_count = CInt 1,
               last_detected_time = CStr ''2024-05-02 08:00:00'', life_span = CInt 7\<rparr>] = Some r
         \<and> life_span r = CInt 7 \<and> last_detected_time r = CStr ''2024-05-02 08:00:00''"
    using scenario[THEN conjunct2, THEN conjunct1, THEN spec, THEN mp, OF up] unfolding t .
  ultimately show ?thesis by (intro conjI)
qed

text \<open>
  C9, as the code has it. For a decodable image the call shows no \<open>st.error\<close> message,
  and it does change the worksheet: what it does is the calls of \<open>update_fresh_count\<close> for
  the detections that reach the threshold, in their order, made inside
  \<open>detect_and_classify\<close>, each with its own clock reading. When every one of them has a
  label and every call returns, the records returned are those of these detections, one
  for each call. A call that raises, or a class index without a label, ends the run
  with that exception, and the world keeps what the calls made up to there, the one that
  raised too, have left.
\<close>

theorem ledger_changes_are_upserts:
  assumes "imread image_path = Some img"
  shows "detect_and_classify imread model clock image_path w =
      (case labels_of (kept (model img)) of
         (ls, bad) \<Rightarrow>
           (case upsert_each clock (map call_of ls) w of
              (Some e, w') \<Rightarrow> (Inl e, w')
            | (None, w') \<Rightarrow>
                (case bad of
                   Some e \<Rightarrow> (Inl e, w')
                 | None \<Rightarrow> (Inr (Some (map record_of ls)), w'))))
    \<and> st_errors (snd (detect_and_classify imread model clock image_path w)) = st_errors w"
proof
  show eq: "detect_and_classify imread model clock image_path w =
      (case labels_of (kept (model img)) of
         (ls, bad) \<Rightarrow>
           (case upsert_each clock (map call_of ls) w of
              (Some e, w') \<Rightarrow> (Inl e, w')
            | (None, w') \<Rightarrow>
                (case bad of
                   Some e \<Rightarrow> (Inl e, w')
                 | None \<Rightarrow> (Inr (Some (map record_of ls)), w'))))"
    using assms by (rule detect_and_classify_labelled)
  obtain ls bad where ls: "labels_of (kept (model img)) = (ls, bad)"
    by (cases "labels_of (kept (model img))") auto
  have "snd (detect_and_classify imread model clock image_path w)
      = snd (upsert_each clock (map call_of ls) w)"
    by (simp add: eq ls split: prod.splits option.splits)
  then show "st_errors (snd (detect_and_classify imread model clock image_path w)) = st_errors w"
    by (simp add: upsert_each_st_errors)
qed

theorem ledger_changes_are_upserts_witness:
  "detect_and_classify decodable apple_then_unlabelled example_clock ''upload.jpg'' fresh_world
     = (Inl IndexError,
        \<lparr>sheet = [header_row,
                  \<lparr>s_no = CInt 1, product_cell = CStr ''apple'', fresh_count = CInt 1,
                     last_detected_time = CStr ''2024-05-02 08:00:00'', life_span = CInt 7\<rparr>],
           st_errors = [], now_calls = 1\<rparr>)"
proof -
  have h: "decodable ''upload.jpg'' = Some ()" by (simp add: decodable_def)
  have rhs: "(case labels_of (kept (apple_then_unlabelled ())) of
         (ls, bad) \<Rightarrow>
           (case upsert_each example_clock (map call_of ls) fresh_world of
              (Some e, w') \<Rightarrow> (Inl e, w')
            | (None, w') \<Rightarrow>
                (case bad of
                   Some e \<Rightarrow> (Inl e, w')
                 | None \<Rightarrow> (Inr (Some (map record_of ls)), w'))))
     = (Inl IndexError,
        \<lparr>sheet = [header_row,
                  \<lparr>s_no = CInt 1, product_cell = CStr ''apple'', fresh_count = CInt 1,
                     last_detected_time = CStr ''2024-05-02 08:00:00'', life_span = CInt 7\<rparr>],
           st_errors = [], now_calls = 1\<rparr>)"
  proof -
    have "interpret_label 0 = Inr (''apple'', ''fresh'')"
      using interpret_label_in_range[of 0] by (simp add: label_pairs_def)
    moreover have "interpret_label 8 = Inl IndexError"
      by (simp add: interpret_label_out_of_range)
    ultimately show ?thesis
      by (simp add: kept_def apple_then_unlabelled_def CONFIDENCE_THRESHOLD_def
          call_update_fresh_count_def update_fresh_count_def sheet_append_def
          check_string_examples lifespan_examples fresh_world_def new_sheet_def max_row_def
          example_clock_readings)
  qed
  from ledger_changes_are_upserts[of decodable "''upload.jpg''" "()" apple_then_unlabelled
      example_clock fresh_world, OF h, THEN conjunct1] rhs
  show ?thesis by (rule trans)
qed

text \<open>
  C9 as the specification states it, a call without any effect on the worksheet, does not
  hold: a decodable image with one apple at confidence 0.9 leaves a worksheet that is not
  the one before the call.
\<close>

theorem detect_and_classify_changes_sheet:
  "sheet (snd (detect_and_classify decodable one_apple example_clock ''upload.jpg'' fresh_world))
   \<noteq> sheet fresh_world"
  unfolding one_apple_run by (simp add: fresh_world_def new_sheet_def)

end
